theory Spec2Isabelle
  imports Complex_Main "HOL-Library.Char_ord" "HOL-Library.List_Lexorder"
begin

chapter \<open>echoes-of-error: the round-based deliberation engine's utilities\<close>

text \<open>
  A shallow embedding of the Python modules \<^verbatim>\<open>src/utils.py\<close>,
  \<^verbatim>\<open>src/resume_utils.py\<close> and \<^verbatim>\<open>src/llm_client.py\<close>. Python's \<^verbatim>\<open>None\<close> is
  \<open>None\<close>, a raised exception is the left injection of a sum, a \<^verbatim>\<open>for\<close> loop
  is a recursion over the list it runs through, and functions of the Python standard
  library whose code is not part of the repository (\<^verbatim>\<open>json.loads\<close>, the random generator,
  the HTTP request, \<^verbatim>\<open>time.sleep\<close>) are parameters of the functions that call them.
\<close>

section \<open>Python values: exceptions, JSON documents, text files\<close>

text \<open>The exceptions the modelled functions raise or catch.\<close>

datatype py_exception =
    JSONDecodeError | AttributeError | TypeError | ValueError | RecursionError
  | OSError | UnicodeDecodeError | OverflowError

text \<open>
  A computation that may raise is a value of a sum type, the exception on the left.
  \<open>or_raise m f\<close> runs \<open>f\<close> on the result of \<open>m\<close>, unless \<open>m\<close> has raised: the sequencing
  of two statements.
\<close>

definition or_raise :: "'e + 'a \<Rightarrow> ('a \<Rightarrow> 'e + 'b) \<Rightarrow> 'e + 'b" where
  "or_raise m f = (case m of Inl e \<Rightarrow> Inl e | Inr x \<Rightarrow> f x)"

text \<open>
  A number as Python compares it: \<^verbatim>\<open>1\<close>, \<^verbatim>\<open>1.0\<close> and \<^verbatim>\<open>True\<close> are equal and hash alike, an
  integer and a finite float are compared by their exact values, and \<^verbatim>\<open>json.loads\<close> also
  yields the floats \<^verbatim>\<open>Infinity\<close>, \<^verbatim>\<open>-Infinity\<close> and \<^verbatim>\<open>NaN\<close>.
\<close>

datatype pynum = Num rat | PosInf | NegInf | NaN

fun num_gt :: "pynum \<Rightarrow> pynum \<Rightarrow> bool" where
  "num_gt NaN y = False"
| "num_gt x NaN = False"
| "num_gt (Num a) (Num b) = (a > b)"
| "num_gt (Num a) PosInf = False"
| "num_gt (Num a) NegInf = True"
| "num_gt PosInf PosInf = False"
| "num_gt PosInf y = True"
| "num_gt NegInf y = False"

text \<open>
  What \<^verbatim>\<open>json.loads\<close> returns: \<^verbatim>\<open>None\<close>, a \<^verbatim>\<open>bool\<close>, an \<^verbatim>\<open>int\<close>, a \<^verbatim>\<open>float\<close>, a \<^verbatim>\<open>str\<close>, a
  \<^verbatim>\<open>list\<close> or a \<^verbatim>\<open>dict\<close> with string keys (an association list whose first entry for a key
  is the entry of the dictionary). A \<open>char\<close> stands for one character of a Python string,
  with a code point below 256.
\<close>

datatype json =
    JNull
  | JBool bool
  | JInt int
  | JFloat pynum
  | JStr string
  | JArr "json list"
  | JObj "(string \<times> json) list"

text \<open>
  \<^verbatim>\<open>json.loads\<close> is a function of the standard library, not of the repository: the functions
  that call it take it as the parameter \<open>loads\<close>, from the text to the decoded document or
  to the exception raised (\<open>JSONDecodeError\<close> for a text that is not valid JSON).
\<close>

type_synonym json_loads = "string \<Rightarrow> py_exception + json"

text \<open>\<^verbatim>\<open>data.get(key)\<close>: only a \<^verbatim>\<open>dict\<close> has the method; a missing key gives \<^verbatim>\<open>None\<close>.\<close>

definition dict_get :: "json \<Rightarrow> string \<Rightarrow> py_exception + json" where
  "dict_get data key =
     (case data of
        JObj kvs \<Rightarrow> Inr (case map_of kvs key of None \<Rightarrow> JNull | Some v \<Rightarrow> v)
      | _ \<Rightarrow> Inl AttributeError)"

text \<open>The number a value is in a comparison with a number, if it is one.\<close>

definition as_num :: "json \<Rightarrow> pynum option" where
  "as_num v =
     (case v of
        JBool b \<Rightarrow> Some (Num (if b then 1 else 0))
      | JInt n \<Rightarrow> Some (Num (of_int n))
      | JFloat x \<Rightarrow> Some x
      | _ \<Rightarrow> None)"

text \<open>
  \<^verbatim>\<open>v > n\<close> for a number \<open>n\<close>: a \<^verbatim>\<open>TypeError\<close> unless \<open>v\<close> is a number too. \<^verbatim>\<open>v == n\<close> for an
  integer \<open>n\<close> never raises.
\<close>

definition py_gt_num :: "json \<Rightarrow> pynum \<Rightarrow> py_exception + bool" where
  "py_gt_num v n = (case as_num v of None \<Rightarrow> Inl TypeError | Some x \<Rightarrow> Inr (num_gt x n))"

definition py_eq_int :: "json \<Rightarrow> int \<Rightarrow> bool" where
  "py_eq_int v n = (as_num v = Some (Num (of_int n)))"

text \<open>
  A dictionary key or set element: a hashable value, up to Python's equality. Lists and
  dictionaries are unhashable, and using one as a key raises \<^verbatim>\<open>TypeError\<close>. (\<^verbatim>\<open>json.loads\<close>
  returns one and the same object for every \<^verbatim>\<open>NaN\<close>, which a dictionary finds again by
  identity.)
\<close>

datatype pykey = KNone | KNum pynum | KStr string

definition key_of :: "json \<Rightarrow> py_exception + pykey" where
  "key_of v =
     (case v of
        JNull \<Rightarrow> Inr KNone
      | JStr s \<Rightarrow> Inr (KStr s)
      | JArr _ \<Rightarrow> Inl TypeError
      | JObj _ \<Rightarrow> Inl TypeError
      | _ \<Rightarrow> Inr (KNum (the (as_num v))))"

text \<open>\<^verbatim>\<open>str.isspace\<close> on one character (code points below 256), and \<^verbatim>\<open>str.strip()\<close>.\<close>

definition py_isspace :: "char \<Rightarrow> bool" where
  "py_isspace c =
     (let n = of_char c :: nat
      in (9 \<le> n \<and> n \<le> 13) \<or> (28 \<le> n \<and> n \<le> 32) \<or> n = 133 \<or> n = 160)"

definition strip :: "string \<Rightarrow> string" where
  "strip s = rev (dropWhile py_isspace (rev (dropWhile py_isspace s)))"

text \<open>
  A text file, as the text layer of Python presents it (decoded, line ends translated to
  \<open>\<newline>\<close>): the path may not exist, the file may exist and fail to be read (\<^verbatim>\<open>OSError\<close>, or
  \<^verbatim>\<open>UnicodeDecodeError\<close> in \<^verbatim>\<open>readlines\<close>), or it is read as a text. \<^verbatim>\<open>f.readlines()\<close> cuts the
  text after every line feed; \<^verbatim>\<open>f.writelines(lines)\<close> writes the concatenation of the lines.
\<close>

datatype text_file = Missing | Unreadable string | Readable string

fun readlines :: "string \<Rightarrow> string list" where
  "readlines [] = []"
| "readlines (c # cs) =
     (if c = CHR 0x0A then [c] # readlines cs
      else (case readlines cs of [] \<Rightarrow> [[c]] | l # ls \<Rightarrow> (c # l) # ls))"

text \<open>
  \<^verbatim>\<open>with open(path, 'w') as f: f.writelines(lines)\<close>. Opening for writing empties the file
  before a character is written, so an error while writing leaves a part of the new text
  on the disk. The environment decides whether the write fails: not at all, when the
  file is opened (nothing has changed yet), or after some characters have reached the
  file. The result is the exception raised, if any, and the text of the file afterwards.
\<close>

datatype write_fault = NoFault | OpenFails | FailsAfter nat

definition write_text :: "write_fault \<Rightarrow> string \<Rightarrow> string \<Rightarrow> py_exception option \<times> string" where
  "write_text fault old new =
     (case fault of
        NoFault \<Rightarrow> (None, new)
      | OpenFails \<Rightarrow> (Some OSError, old)
      | FailsAfter n \<Rightarrow> (Some OSError, take n new))"

section \<open>EntropyTracker: time to collapse (\<^verbatim>\<open>utils.py\<close>)\<close>

text \<open>
  Entropy values are Python floats. \<^verbatim>\<open>calculate_time_to_collapse\<close> only compares them
  (\<^verbatim>\<open>h <= threshold_absolute\<close>), and the order of finite floats is the order of the reals
  they denote, so the history is a list of reals here (a NaN is outside this model).

  \<open>py_slice xs i j\<close> is Python's \<^verbatim>\<open>xs[i:j]\<close>: a negative bound counts from the end, and
  both bounds are clamped to the list.
\<close>

definition py_slice :: "'a list \<Rightarrow> int \<Rightarrow> int \<Rightarrow> 'a list" where
  "py_slice xs i j =
     (let n = int (length xs);
          lo = (if i < 0 then max (i + n) 0 else min i n);
          hi = (if j < 0 then max (j + n) 0 else min j n)
      in take (nat (hi - lo)) (drop (nat lo) xs))"

text \<open>
  The loop \<^verbatim>\<open>for i in range(len(entropy_history) - consecutive_rounds + 1)\<close>, over the
  indices still to visit: the first index whose window is all at or below the threshold
  is returned.
\<close>

fun scan_windows :: "real list \<Rightarrow> real \<Rightarrow> int \<Rightarrow> int list \<Rightarrow> int option" where
  "scan_windows h t w [] = None"
| "scan_windows h t w (i # is) =
     (if list_all (\<lambda>x. x \<le> t) (py_slice h i (i + w)) then Some i
      else scan_windows h t w is)"

definition calculate_time_to_collapse :: "real list \<Rightarrow> real \<Rightarrow> int \<Rightarrow> int option" where
  "calculate_time_to_collapse entropy_history threshold_absolute consecutive_rounds =
     (if entropy_history = [] then None
      else scan_windows entropy_history threshold_absolute consecutive_rounds
             [0 .. int (length entropy_history) - consecutive_rounds])"

text \<open>
  Two readings of "the window starting at round \<open>i\<close> has collapsed". The first follows
  the specification's words, "every entropy value in \<^verbatim>\<open>history[i : i+window]\<close> is at most
  the threshold", for a round index \<open>i\<close> of the history; the slice is Python's, so near the
  end of the history it is shorter than the window. The second asks for a full window:
  \<open>i + w \<le> len(history)\<close> and each of \<open>h[i], \<dots>, h[i+w-1]\<close> at most the threshold.
\<close>

definition slice_collapsed :: "real list \<Rightarrow> real \<Rightarrow> int \<Rightarrow> int \<Rightarrow> bool" where
  "slice_collapsed h t w i =
     (0 \<le> i \<and> i < int (length h) \<and> list_all (\<lambda>x. x \<le> t) (py_slice h i (i + w)))"

definition spec_time_to_collapse :: "real list \<Rightarrow> real \<Rightarrow> int \<Rightarrow> int option \<Rightarrow> bool" where
  "spec_time_to_collapse h t w r =
     (case r of
        None \<Rightarrow> list_all (\<lambda>i. \<not> slice_collapsed h t w i) [0 .. int (length h)]
      | Some i \<Rightarrow> slice_collapsed h t w i \<and> list_all (\<lambda>j. \<not> slice_collapsed h t w j) [0 .. i - 1])"

definition window_collapsed :: "real list \<Rightarrow> real \<Rightarrow> int \<Rightarrow> int \<Rightarrow> bool" where
  "window_collapsed h t w i =
     (0 \<le> i \<and> i + w \<le> int (length h) \<and> list_all (\<lambda>k. h ! nat (i + k) \<le> t) [0 .. w - 1])"

section \<open>Stances, agents and the stance distribution (\<^verbatim>\<open>config.py\<close>, \<^verbatim>\<open>utils.py\<close>)\<close>

text \<open>The enumeration \<^verbatim>\<open>Stance(str, Enum)\<close> of \<^verbatim>\<open>config.py\<close>, and the string each member carries.\<close>

datatype Stance =
    PULL_LEVER | DO_NOT_PULL
  | SACRIFICE_DRIVER | PROTECT_DRIVER
  | HARVEST_ORGANS | DO_NOT_HARVEST
  | SACRIFICE_ONE | ALL_EQUAL
  | ALLOW_TORTURE | FORBID_TORTURE
  | BLOW_WHISTLE | STAY_SILENT
  | PRIORITIZE_PRIVACY | PRIORITIZE_SECURITY
  | GRANT_AI_RIGHTS | DENY_AI_RIGHTS
  | WORK_REMOTE | WORK_OFFICE
  | AGI_IS_TOOL | AGI_IS_AGENT

fun stance_value :: "Stance \<Rightarrow> string" where
  "stance_value PULL_LEVER = ''PULL_LEVER''"
| "stance_value DO_NOT_PULL = ''DO_NOT_PULL''"
| "stance_value SACRIFICE_DRIVER = ''SACRIFICE_DRIVER''"
| "stance_value PROTECT_DRIVER = ''PROTECT_DRIVER''"
| "stance_value HARVEST_ORGANS = ''HARVEST_ORGANS''"
| "stance_value DO_NOT_HARVEST = ''DO_NOT_HARVEST''"
| "stance_value SACRIFICE_ONE = ''SACRIFICE_ONE''"
| "stance_value ALL_EQUAL = ''ALL_EQUAL''"
| "stance_value ALLOW_TORTURE = ''ALLOW_TORTURE''"
| "stance_value FORBID_TORTURE = ''FORBID_TORTURE''"
| "stance_value BLOW_WHISTLE = ''BLOW_WHISTLE''"
| "stance_value STAY_SILENT = ''STAY_SILENT''"
| "stance_value PRIORITIZE_PRIVACY = ''PRIORITIZE_PRIVACY''"
| "stance_value PRIORITIZE_SECURITY = ''PRIORITIZE_SECURITY''"
| "stance_value GRANT_AI_RIGHTS = ''GRANT_AI_RIGHTS''"
| "stance_value DENY_AI_RIGHTS = ''DENY_AI_RIGHTS''"
| "stance_value WORK_REMOTE = ''WORK_REMOTE''"
| "stance_value WORK_OFFICE = ''WORK_OFFICE''"
| "stance_value AGI_IS_TOOL = ''AGI_IS_TOOL''"
| "stance_value AGI_IS_AGENT = ''AGI_IS_AGENT''"

text \<open>
  Modelled from the spec: the \<^verbatim>\<open>Agent\<close> class, whose module is not among the sources. The
  functions of \<^verbatim>\<open>utils.py\<close> read four attributes of an agent: \<^verbatim>\<open>id\<close> (a stable string),
  \<^verbatim>\<open>persona\<close> (a fixed descriptor, of a type left open here), \<^verbatim>\<open>current_stance\<close> (a member
  of \<^verbatim>\<open>Stance\<close>, or \<^verbatim>\<open>None\<close> while unset) and \<^verbatim>\<open>current_rationale\<close> (free text, or
  \<^verbatim>\<open>None\<close>). The field \<open>agent_id\<close> is the attribute \<^verbatim>\<open>id\<close>.
\<close>

record 'p Agent =
  agent_id :: string
  persona :: 'p
  current_stance :: "Stance option"
  current_rationale :: "string option"

text \<open>
  The truth value of \<^verbatim>\<open>a.current_stance\<close> in \<^verbatim>\<open>if a.current_stance\<close>: \<^verbatim>\<open>None\<close> is false, and
  a member of an enumeration mixed with \<^verbatim>\<open>str\<close> is true when its string is not empty.
\<close>

definition truthy_stance :: "Stance option \<Rightarrow> bool" where
  "truthy_stance s = (case s of None \<Rightarrow> False | Some v \<Rightarrow> stance_value v \<noteq> [])"









section \<open>ResumeManager (\<^verbatim>\<open>resume_utils.py\<close>)\<close>

subsection \<open>\<^verbatim>\<open>find_last_complete_round\<close>\<close>

text \<open>
  The local variables of the replay. \<open>round_responses\<close> maps a round to the map from an
  agent to its \<open>(stance, rationale)\<close>; \<open>last_complete_round\<close> starts at \<open>-1\<close>.
\<close>

type_synonym agent_states = "pykey \<rightharpoonup> json \<times> json"

record replay =
  last_complete_round :: pynum
  last_round_end_line_idx :: int
  round_responses :: "pykey \<rightharpoonup> agent_states"
  complete_rounds :: "pykey set"

definition replay_init :: replay where
  "replay_init =
     \<lparr>last_complete_round = Num (- 1), last_round_end_line_idx = - 1,
      round_responses = Map.empty, complete_rounds = {}\<rparr>"

text \<open>
  The branch for an \<^verbatim>\<open>agent_response\<close> event: the entry of the round is created when the
  round is new, and the agent's entry is overwritten. The two keys are hashed, which
  raises \<^verbatim>\<open>TypeError\<close> for a list or a dictionary.
\<close>

definition record_response :: "replay \<Rightarrow> json \<Rightarrow> py_exception + replay" where
  "record_response st data =
     or_raise (dict_get data ''round'') (\<lambda>r_num.
     or_raise (dict_get data ''agent_id'') (\<lambda>a_id.
     or_raise (key_of r_num) (\<lambda>r.
     or_raise (dict_get data ''stance'') (\<lambda>stance.
     or_raise (dict_get data ''rationale'') (\<lambda>rationale.
     or_raise (key_of a_id) (\<lambda>a.
       (let of_round = (case round_responses st r of None \<Rightarrow> Map.empty | Some m \<Rightarrow> m)
        in Inr (st\<lparr>round_responses :=
                    (round_responses st)(r \<mapsto> of_round(a \<mapsto> (stance, rationale)))\<rparr>))))))))"

text \<open>
  The branch for a \<^verbatim>\<open>round_end\<close> event: the round joins \<open>complete_rounds\<close> (hashed), and
  becomes the last complete round when it is greater than the one held
  (\<^verbatim>\<open>r_num > last_complete_round\<close>, a \<^verbatim>\<open>TypeError\<close> when \<open>r_num\<close> is not a number).
\<close>

definition record_round_end :: "replay \<Rightarrow> int \<Rightarrow> json \<Rightarrow> py_exception + replay" where
  "record_round_end st i data =
     or_raise (dict_get data ''round'') (\<lambda>r_num.
     or_raise (key_of r_num) (\<lambda>r.
     or_raise (py_gt_num r_num (last_complete_round st)) (\<lambda>greater.
       (let st' = st\<lparr>complete_rounds := insert r (complete_rounds st)\<rparr>
        in Inr (if greater
                then st'\<lparr>last_complete_round := the (as_num r_num),
                         last_round_end_line_idx := i\<rparr>
                else st')))))"

definition replay_event :: "replay \<Rightarrow> int \<Rightarrow> json \<Rightarrow> py_exception + replay" where
  "replay_event st i data =
     or_raise (dict_get data ''type'') (\<lambda>event_type.
       if event_type = JStr ''agent_response'' then record_response st data
       else if event_type = JStr ''round_end'' then record_round_end st i data
       else Inr st)"

text \<open>
  The body of the loop for line \<open>i\<close>: a blank line is skipped; a line that is not valid
  JSON is skipped (\<^verbatim>\<open>except json.JSONDecodeError: continue\<close>); every other exception leaves
  the loop.
\<close>

definition replay_line :: "json_loads \<Rightarrow> replay \<Rightarrow> int \<Rightarrow> string \<Rightarrow> py_exception + replay" where
  "replay_line loads st i line =
     (let line' = strip line
      in if line' = [] then Inr st
         else (case loads line' of
                 Inl e \<Rightarrow> if e = JSONDecodeError then Inr st else Inl e
               | Inr data \<Rightarrow> replay_event st i data))"

fun replay_lines :: "json_loads \<Rightarrow> replay \<Rightarrow> int \<Rightarrow> string list \<Rightarrow> py_exception + replay" where
  "replay_lines loads st i [] = Inr st"
| "replay_lines loads st i (line # lines) =
     (case replay_line loads st i line of
        Inl e \<Rightarrow> Inl e
      | Inr st' \<Rightarrow> replay_lines loads st' (i + 1) lines)"

text \<open>
  The function: \<open>(None, {})\<close> when the path does not exist, when reading the file or the
  replay raises (\<^verbatim>\<open>except Exception\<close>; the message printed is not modelled), and when no
  round has ended; else the last complete round and the agents' states recorded for it.
\<close>

definition find_last_complete_round :: "json_loads \<Rightarrow> text_file \<Rightarrow> pynum option \<times> agent_states" where
  "find_last_complete_round loads jsonl =
     (case jsonl of
        Missing \<Rightarrow> (None, Map.empty)
      | Unreadable _ \<Rightarrow> (None, Map.empty)
      | Readable text \<Rightarrow>
          (case replay_lines loads replay_init 0 (readlines text) of
             Inl e \<Rightarrow> (None, Map.empty)
           | Inr st \<Rightarrow>
               if last_complete_round st = Num (- 1) then (None, Map.empty)
               else (Some (last_complete_round st),
                     (case round_responses st (KNum (last_complete_round st)) of
                        None \<Rightarrow> Map.empty
                      | Some agent_states \<Rightarrow> agent_states))))"

subsection \<open>The log a replay is specified on\<close>

text \<open>
  The documents of a log, in the order of its lines: the lines that are not blank and
  decode. An \<^verbatim>\<open>agent_response\<close> event of the log line schema carries an integer \<open>round\<close>
  and a string \<open>agent_id\<close>; a \<^verbatim>\<open>round_end\<close> event carries an integer \<open>round\<close>, and rounds
  are numbered from \<open>0\<close>.
\<close>

definition decoded :: "json_loads \<Rightarrow> string list \<Rightarrow> json list" where
  "decoded loads lines =
     List.map_filter (\<lambda>line. case loads (strip line) of Inl e \<Rightarrow> None | Inr data \<Rightarrow> Some data)
       (filter (\<lambda>line. strip line \<noteq> []) lines)"

definition event_kind :: "json \<Rightarrow> string \<Rightarrow> bool" where
  "event_kind data kind = (dict_get data ''type'' = Inr (JStr kind))"

definition round_end_of :: "json \<Rightarrow> int option" where
  "round_end_of data =
     (if event_kind data ''round_end''
      then (case dict_get data ''round'' of Inr (JInt n) \<Rightarrow> Some n | _ \<Rightarrow> None)
      else None)"

definition response_of :: "json \<Rightarrow> (int \<times> string \<times> json \<times> json) option" where
  "response_of data =
     (if event_kind data ''agent_response''
      then (case (dict_get data ''round'', dict_get data ''agent_id'',
                  dict_get data ''stance'', dict_get data ''rationale'') of
              (Inr (JInt n), Inr (JStr a), Inr stance, Inr rationale) \<Rightarrow> Some (n, a, stance, rationale)
            | _ \<Rightarrow> None)
      else None)"

definition event_ok :: "json \<Rightarrow> bool" where
  "event_ok data =
     (case data of
        JObj kvs \<Rightarrow>
          (if event_kind data ''round_end''
           then (case round_end_of data of None \<Rightarrow> False | Some n \<Rightarrow> 0 \<le> n)
           else if event_kind data ''agent_response'' then response_of data \<noteq> None
           else True)
      | _ \<Rightarrow> False)"

definition line_ok :: "json_loads \<Rightarrow> string \<Rightarrow> bool" where
  "line_ok loads line =
     (strip line = [] \<or>
      (case loads (strip line) of Inl e \<Rightarrow> e = JSONDecodeError | Inr data \<Rightarrow> event_ok data))"

definition log_ok :: "json_loads \<Rightarrow> string \<Rightarrow> bool" where
  "log_ok loads text = list_all (line_ok loads) (readlines text)"

text \<open>
  The rounds that have a \<^verbatim>\<open>round_end\<close> event, and the \<open>(stance, rationale)\<close> pairs of the
  \<^verbatim>\<open>agent_response\<close> events of one round and one agent, both in log order.
\<close>

definition ended_rounds :: "json list \<Rightarrow> int list" where
  "ended_rounds events = List.map_filter round_end_of events"

definition responses_of :: "json list \<Rightarrow> int \<Rightarrow> string \<Rightarrow> (json \<times> json) list" where
  "responses_of events r a =
     List.map_filter
       (\<lambda>data. case response_of data of
                  None \<Rightarrow> None
                | Some (n, b, state) \<Rightarrow> if n = r \<and> b = a then Some state else None)
       events"

definition last_response :: "json list \<Rightarrow> int \<Rightarrow> pykey \<Rightarrow> (json \<times> json) option" where
  "last_response events r k =
     (case k of
        KStr a \<Rightarrow> (case responses_of events r a of [] \<Rightarrow> None | rs \<Rightarrow> Some (last rs))
      | _ \<Rightarrow> None)"

text \<open>
  What the decoder does on a line of the log. \<open>decode_error\<close>: decoding the stripped line
  raises \<open>JSONDecodeError\<close>, the one exception the loop passes over.
  \<open>raises_other\<close>: the line is not blank and decoding it raises another exception
  (\<^verbatim>\<open>json.loads\<close> raises \<^verbatim>\<open>RecursionError\<close> on a deeply nested text, valid or not).
\<close>

definition decode_error :: "json_loads \<Rightarrow> string \<Rightarrow> bool" where
  "decode_error loads line = (loads (strip line) = Inl JSONDecodeError)"

definition raises_other :: "json_loads \<Rightarrow> string \<Rightarrow> bool" where
  "raises_other loads line =
     (strip line \<noteq> [] \<and>
      (case loads (strip line) of Inl e \<Rightarrow> e \<noteq> JSONDecodeError | Inr data \<Rightarrow> False))"

subsection \<open>An example log\<close>

text \<open>
  The examples need a decoder to run on. \<open>example_loads\<close> is \<^verbatim>\<open>json.loads\<close> cut down to the
  lines of the example log: it skips the JSON white space around the text, decodes the
  five documents below as \<^verbatim>\<open>json.loads\<close> does, and raises \<open>JSONDecodeError\<close> on every other
  text. The log holds two complete rounds, a response written twice in round 1 (a
  retried write), and a last line that a crash has cut short.
\<close>

definition json_trim :: "string \<Rightarrow> string" where
  "json_trim s =
     (let ws = (\<lambda>c. c = CHR '' '' \<or> c = CHR 0x09 \<or> c = CHR 0x0A \<or> c = CHR 0x0D)
      in rev (dropWhile ws (rev (dropWhile ws s))))"

definition response_event :: "int \<Rightarrow> string \<Rightarrow> string \<Rightarrow> string \<Rightarrow> json" where
  "response_event r a stance rationale =
     JObj [(''type'', JStr ''agent_response''), (''round'', JInt r), (''agent_id'', JStr a),
           (''stance'', JStr stance), (''rationale'', JStr rationale)]"

definition round_end_event :: "int \<Rightarrow> json" where
  "round_end_event r = JObj [(''type'', JStr ''round_end''), (''round'', JInt r)]"

definition example_loads :: json_loads where
  "example_loads s =
     (let t = json_trim s in
      if t = ''{\"type\": \"agent_response\", \"round\": 0, \"agent_id\": \"a1\", \"stance\": \"PULL_LEVER\", \"rationale\": \"r1\"}''
        then Inr (response_event 0 ''a1'' ''PULL_LEVER'' ''r1'')
      else if t = ''{\"type\": \"round_end\", \"round\": 0}''
        then Inr (round_end_event 0)
      else if t = ''{\"type\": \"agent_response\", \"round\": 1, \"agent_id\": \"a1\", \"stance\": \"PULL_LEVER\", \"rationale\": \"r2\"}''
        then Inr (response_event 1 ''a1'' ''PULL_LEVER'' ''r2'')
      else if t = ''{\"type\": \"agent_response\", \"round\": 1, \"agent_id\": \"a1\", \"stance\": \"DO_NOT_PULL\", \"rationale\": \"r3\"}''
        then Inr (response_event 1 ''a1'' ''DO_NOT_PULL'' ''r3'')
      else if t = ''{\"type\": \"round_end\", \"round\": 1}''
        then Inr (round_end_event 1)
      else Inl JSONDecodeError)"

definition example_log :: "string list" where
  "example_log =
     [''{\"type\": \"agent_response\", \"round\": 0, \"agent_id\": \"a1\", \"stance\": \"PULL_LEVER\", \"rationale\": \"r1\"}\<newline>'',
      ''{\"type\": \"round_end\", \"round\": 0}\<newline>'',
      ''{\"type\": \"agent_response\", \"round\": 1, \"agent_id\": \"a1\", \"stance\": \"PULL_LEVER\", \"rationale\": \"r2\"}\<newline>'',
      ''{\"type\": \"agent_response\", \"round\": 1, \"agent_id\": \"a1\", \"stance\": \"DO_NOT_PULL\", \"rationale\": \"r3\"}\<newline>'',
      ''{\"type\": \"round_end\", \"round\": 1}\<newline>'',
      ''{\"type\": \"agent_response\", \"round\": 2, \"agent_id\": \"a1\", \"stan'']"

text \<open>
  A garbled line: a hundred thousand opening brackets. It is not valid JSON, and \<^verbatim>\<open>json.loads\<close>
  raises \<^verbatim>\<open>RecursionError\<close> on it (the nesting is deeper than the recursion limit of the
  interpreter) before it would find that out. \<open>deep_loads\<close> is the decoder of the example
  log that knows this text too.
\<close>

definition deeply_nested :: string where
  "deeply_nested = replicate 100000 (CHR ''['')"

definition deep_loads :: json_loads where
  "deep_loads s = (if json_trim s = deeply_nested then Inl RecursionError else example_loads s)"

subsection \<open>\<^verbatim>\<open>truncate_log_to_round\<close>\<close>

text \<open>
  The test of the loop body on one line, with its \<^verbatim>\<open>try\<close>: the line (not stripped) decodes
  to a dictionary whose \<open>type\<close> is \<^verbatim>\<open>round_end\<close> and whose \<open>round\<close> equals the target. Any
  exception in it is swallowed (\<^verbatim>\<open>except: pass\<close>), and the line then is not the target.
\<close>

definition is_target_round_end :: "json_loads \<Rightarrow> int \<Rightarrow> string \<Rightarrow> bool" where
  "is_target_round_end loads target_round line =
     (case or_raise (loads line) (\<lambda>data.
           or_raise (dict_get data ''type'') (\<lambda>event_type.
           or_raise (dict_get data ''round'') (\<lambda>r_num.
             Inr (event_type = JStr ''round_end'' \<and> py_eq_int r_num target_round)))) of
        Inl e \<Rightarrow> False
      | Inr hit \<Rightarrow> hit)"

text \<open>
  The loop: every line read is appended to \<open>valid_lines\<close>, and the loop stops after the
  first target line. It returns \<open>valid_lines\<close> and \<open>found_target\<close>.
\<close>

fun truncate_scan :: "json_loads \<Rightarrow> int \<Rightarrow> string list \<Rightarrow> string list \<Rightarrow> string list \<times> bool" where
  "truncate_scan loads target_round valid_lines [] = (valid_lines, False)"
| "truncate_scan loads target_round valid_lines (line # lines) =
     (let valid_lines' = valid_lines @ [line]
      in if is_target_round_end loads target_round line then (valid_lines', True)
         else truncate_scan loads target_round valid_lines' lines)"

text \<open>
  The function returns whether it succeeded; the second component is the file afterwards.
  A missing path and a file that cannot be read give \<open>False\<close> before anything is written,
  and so does a log without the target; the write is the last step, and an exception in
  it is caught by \<^verbatim>\<open>except Exception\<close> and gives \<open>False\<close> as well.
\<close>

definition truncate_log_to_round ::
    "json_loads \<Rightarrow> write_fault \<Rightarrow> text_file \<Rightarrow> int \<Rightarrow> bool \<times> text_file" where
  "truncate_log_to_round loads fault jsonl target_round =
     (case jsonl of
        Missing \<Rightarrow> (False, Missing)
      | Unreadable t \<Rightarrow> (False, Unreadable t)
      | Readable text \<Rightarrow>
          (case truncate_scan loads target_round [] (readlines text) of
             (valid_lines, found_target) \<Rightarrow>
               if \<not> found_target then (False, Readable text)
               else (case write_text fault text (concat valid_lines) of
                       (None, text') \<Rightarrow> (True, Readable text')
                     | (Some e, text') \<Rightarrow> (False, Readable text'))))"

text \<open>
  The index of the first target line of a log, if it has one: the \<^verbatim>\<open>round_end\<close> event the
  log is cut after.
\<close>

definition round_end_index :: "json_loads \<Rightarrow> int \<Rightarrow> string list \<Rightarrow> nat option" where
  "round_end_index loads target_round lines =
     (let before = takeWhile (\<lambda>line. \<not> is_target_round_end loads target_round line) lines
      in if length before < length lines then Some (length before) else None)"

section \<open>PeerSampler (\<^verbatim>\<open>utils.py\<close>)\<close>

text \<open>
  \<^verbatim>\<open>random.sample\<close> belongs to the standard library. A generator is modelled by the choice
  it makes when asked for \<open>k\<close> of \<open>n\<close> elements: the list of the positions it picks, in the
  order it picks them. \<^verbatim>\<open>random.Random(seed)\<close> is a fresh generator determined by the seed
  (the parameter \<open>seeded\<close>); the module \<^verbatim>\<open>random\<close> is the process-wide generator, whose state
  differs from call to call (the parameter \<open>shared\<close>: the choice it would make at this
  call). \<^verbatim>\<open>sample\<close> raises \<^verbatim>\<open>ValueError\<close> when the sample size is negative or larger than
  the population.
\<close>

type_synonym rng = "nat \<Rightarrow> nat \<Rightarrow> nat list"

definition py_sample :: "rng \<Rightarrow> 'a list \<Rightarrow> int \<Rightarrow> py_exception + 'a list" where
  "py_sample gen population k =
     (if k < 0 \<or> int (length population) < k then Inl ValueError
      else Inr (map (\<lambda>j. population ! j) (gen (length population) (nat k))))"

text \<open>
  The contract of \<^verbatim>\<open>sample\<close>, sampling without replacement: for \<open>k \<le> n\<close> the generator
  picks \<open>k\<close> different positions below \<open>n\<close>.
\<close>

definition samples_without_replacement :: "rng \<Rightarrow> bool" where
  "samples_without_replacement gen =
     (\<forall>n k. k \<le> n \<longrightarrow>
        distinct (gen n k) \<and> length (gen n k) = k \<and> (\<forall>j \<in> set (gen n k). j < n))"

text \<open>The dictionary returned for a peer, with the keys \<open>id\<close>, \<open>persona\<close>, \<open>stance\<close>, \<open>rationale\<close>.\<close>

record 'p PeerState =
  peer_id :: string
  peer_persona :: 'p
  peer_stance :: "string option"
  peer_rationale :: "string option"

definition peer_state :: "'p Agent \<Rightarrow> 'p PeerState" where
  "peer_state p =
     \<lparr>peer_id = agent_id p,
      peer_persona = persona p,
      peer_stance = (if truthy_stance (current_stance p)
                     then Some (stance_value (the (current_stance p))) else None),
      peer_rationale = current_rationale p\<rparr>"

text \<open>
  \<^verbatim>\<open>sampled.sort(key=lambda x: x.id)\<close> is a stable sort on the identifiers, which Python
  compares as strings, character by character; \<open>sort_key\<close> is a stable sort, and the
  order on strings is the lexicographic order on the character codes.
\<close>

definition sample_peers ::
    "(int \<Rightarrow> rng) \<Rightarrow> rng \<Rightarrow> 'p Agent list \<Rightarrow> string \<Rightarrow> int \<Rightarrow> int option
     \<Rightarrow> py_exception + 'p PeerState list" where
  "sample_peers seeded shared agents current_agent_id k seed =
     (let gen = (case seed of Some s \<Rightarrow> seeded s | None \<Rightarrow> shared);
          peers = filter (\<lambda>a. agent_id a \<noteq> current_agent_id) agents;
          sample_size = min k (int (length peers))
      in or_raise (py_sample gen peers sample_size) (\<lambda>sampled.
           Inr (map peer_state (sort_key agent_id sampled))))"

text \<open>
  A generator for the examples: it picks the first \<open>k\<close> positions of the positions
  \<open>0, \<dots>, n-1\<close> rotated by the seed.
\<close>

definition example_rng :: "int \<Rightarrow> rng" where
  "example_rng seed n k = take k (rotate (nat seed) [0 ..< n])"

text \<open>A population of four agents for the examples.\<close>

definition example_agent :: "string \<Rightarrow> Stance option \<Rightarrow> unit Agent" where
  "example_agent i s =
     \<lparr>agent_id = i, persona = (), current_stance = s, current_rationale = None\<rparr>"

definition example_agents :: "unit Agent list" where
  "example_agents =
     [example_agent ''a1'' (Some PULL_LEVER), example_agent ''a2'' (Some DO_NOT_PULL),
      example_agent ''a3'' None, example_agent ''a4'' (Some PULL_LEVER)]"

section \<open>ModelInvoker (\<^verbatim>\<open>llm_client.py\<close>)\<close>

subsection \<open>Extraction of JSON from the response text\<close>

text \<open>
  \<open>find_sub pat s\<close> is the position of the first occurrence of \<open>pat\<close> in \<open>s\<close>
  (\<^verbatim>\<open>s.find(pat)\<close>, with \<open>None\<close> for \<open>-1\<close>).
\<close>

fun find_sub :: "string \<Rightarrow> string \<Rightarrow> nat option" where
  "find_sub pat [] = (if pat = [] then Some 0 else None)"
| "find_sub pat (c # cs) =
     (if take (length pat) (c # cs) = pat then Some 0
      else map_option Suc (find_sub pat cs))"

text \<open>
  \<^verbatim>\<open>re.search\<close> belongs to the standard library; the three patterns of
  \<^verbatim>\<open>_parse_json_response\<close> are fixed, and each search is written out for its pattern.

  The patterns \<^verbatim>\<open>```json\s*([\s\S]*?)\s*```\<close> and \<^verbatim>\<open>```\s*([\s\S]*?)\s*```\<close>: the match starts at
  the first occurrence of the opening literal (if no fence closes that one, none closes a
  later one); the group is lazy and the white space around it is taken by the two
  \<^verbatim>\<open>\s*\<close>, so the match ends with the first \<^verbatim>\<open>```\<close> after the opening literal and group 1 is
  the text between the two, without the white space at its ends. (\<^verbatim>\<open>\s\<close> and \<^verbatim>\<open>str.strip\<close>
  agree on what white space is.) The result is \<^verbatim>\<open>match.group(1)\<close>, or \<open>None\<close> for no match.
\<close>

definition search_fenced :: "string \<Rightarrow> string \<Rightarrow> string option" where
  "search_fenced opening text =
     (case find_sub opening text of
        None \<Rightarrow> None
      | Some i \<Rightarrow>
          (let rest = drop (i + length opening) text
           in case find_sub ''```'' rest of
                None \<Rightarrow> None
              | Some q \<Rightarrow> Some (strip (take q rest))))"

text \<open>
  The pattern \<^verbatim>\<open>\{[\s\S]*\}\<close>: the match starts at the first opening brace, and the star
  is greedy, so it ends at the last closing brace of the text; there is no match when no
  closing brace follows the first opening one. The result is \<^verbatim>\<open>match.group(0)\<close>.
\<close>

definition search_braces :: "string \<Rightarrow> string option" where
  "search_braces text =
     (let i = length (takeWhile (\<lambda>c. c \<noteq> CHR ''{'') text);
          k = length (takeWhile (\<lambda>c. c \<noteq> CHR ''}'') (rev text))
      in if i < length text \<and> k < length text \<and> i < length text - 1 - k
         then Some (take (length text - k - i) (drop i text))
         else None)"

text \<open>
  The loop over the patterns: a pattern that does not match, or whose text does not
  decode (\<open>JSONDecodeError\<close>), is passed over; the first text that decodes is returned. The
  function returns \<^verbatim>\<open>None\<close>, which is \<open>JNull\<close>, when nothing decodes; an exception of
  \<^verbatim>\<open>json.loads\<close> other than \<open>JSONDecodeError\<close> is not caught here.
\<close>

fun try_patterns :: "json_loads \<Rightarrow> string option list \<Rightarrow> py_exception + json" where
  "try_patterns loads [] = Inr JNull"
| "try_patterns loads (None # matches) = try_patterns loads matches"
| "try_patterns loads (Some json_str # matches) =
     (case loads (strip json_str) of
        Inr parsed \<Rightarrow> Inr parsed
      | Inl e \<Rightarrow> if e = JSONDecodeError then try_patterns loads matches else Inl e)"

definition parse_json_response :: "json_loads \<Rightarrow> string \<Rightarrow> py_exception + json" where
  "parse_json_response loads text =
     (if text = [] then Inr JNull
      else (case loads (strip text) of
              Inr parsed \<Rightarrow> Inr parsed
            | Inl e \<Rightarrow>
                if e = JSONDecodeError
                then try_patterns loads
                       [search_fenced ''```json'' text, search_fenced ''```'' text,
                        search_braces text]
                else Inl e))"

text \<open>
  The extraction as the specification words its last step: the first balanced
  brace-delimited object of the text, found by counting the braces from an opening one
  until the count is back at zero.
\<close>

fun balanced_end :: "nat \<Rightarrow> string \<Rightarrow> nat option" where
  "balanced_end depth [] = None"
| "balanced_end depth (c # cs) =
     (if c = CHR ''{'' then map_option Suc (balanced_end (Suc depth) cs)
      else if c = CHR ''}'' then
        (if depth = 1 then Some 1
         else if depth = 0 then None
         else map_option Suc (balanced_end (depth - 1) cs))
      else map_option Suc (balanced_end depth cs))"

fun first_balanced_object :: "string \<Rightarrow> string option" where
  "first_balanced_object [] = None"
| "first_balanced_object (c # cs) =
     (if c = CHR ''{''
      then (case balanced_end 0 (c # cs) of
              Some n \<Rightarrow> Some (take n (c # cs))
            | None \<Rightarrow> first_balanced_object cs)
      else first_balanced_object cs)"

text \<open>
  The texts the extraction tries, in its order: the whole text, then what each pattern
  matches; and the first of a list of texts that decodes.
\<close>

definition extraction_candidates :: "string \<Rightarrow> string list" where
  "extraction_candidates text =
     strip text #
     map strip (List.map_filter (\<lambda>m. m)
       [search_fenced ''```json'' text, search_fenced ''```'' text, search_braces text])"

definition first_decodable :: "json_loads \<Rightarrow> string list \<Rightarrow> py_exception + json" where
  "first_decodable loads texts =
     (case dropWhile (\<lambda>t. loads t = Inl JSONDecodeError) texts of
        [] \<Rightarrow> Inr JNull
      | t # _ \<Rightarrow> loads t)"

subsection \<open>The request with retries\<close>

text \<open>
  The fields of \<^verbatim>\<open>OllamaClient\<close>. \<open>retry_delay\<close> is a float; the type \<open>'f\<close> stands for Python's
  floats, of which this function only takes a product with an integer and passes the
  result to \<^verbatim>\<open>time.sleep\<close>.
\<close>

record 'f OllamaClient =
  base_url :: string
  model :: string
  timeout :: int
  max_retries :: int
  retry_delay :: 'f

text \<open>The payload of the request, as \<^verbatim>\<open>generate\<close> builds it from its arguments.\<close>

record 'f Payload =
  payload_model :: string
  payload_prompt :: string
  payload_stream :: bool
  payload_temperature :: 'f
  payload_num_predict :: int
  payload_seed :: "int option"
  payload_format :: json
  payload_system :: "string option"

definition build_payload ::
    "'f OllamaClient \<Rightarrow> string \<Rightarrow> string option \<Rightarrow> 'f \<Rightarrow> int \<Rightarrow> int option \<Rightarrow> json option
     \<Rightarrow> 'f Payload" where
  "build_payload self prompt system_prompt temperature max_tokens seed json_schema =
     \<lparr>payload_model = model self,
      payload_prompt = prompt,
      payload_stream = False,
      payload_temperature = temperature,
      payload_num_predict = max_tokens,
      payload_seed = seed,
      payload_format = (case json_schema of
                          None \<Rightarrow> JStr ''json''
                        | Some schema \<Rightarrow> if schema = JObj [] then JStr ''json'' else schema),
      payload_system = (case system_prompt of
                          None \<Rightarrow> None
                        | Some s \<Rightarrow> if s = [] then None else Some s)\<rparr>"

text \<open>
  The request of one attempt is the body of the \<^verbatim>\<open>try\<close> up to \<^verbatim>\<open>raw_response\<close>: the request,
  \<^verbatim>\<open>raise_for_status\<close>, the decoding of the body and the reading of its \<open>response\<close> field. The
  backend and the network are the environment: the parameter \<open>post\<close> gives, for a payload
  and the number of the attempt, either the raw response text or the exception raised,
  named by the \<^verbatim>\<open>except\<close> clause that catches it (in the order of the clauses) and carrying
  the text \<^verbatim>\<open>str(e)\<close>. The raw response is a string, as the backend sends it; an interrupt
  is not an \<^verbatim>\<open>Exception\<close> and is not modelled.
\<close>

datatype request_failure =
    CaughtTimeout
  | CaughtConnectionError string
  | CaughtRequestException string
  | CaughtException string

type_synonym 'f backend = "'f Payload \<Rightarrow> nat \<Rightarrow> request_failure + string"

text \<open>\<^verbatim>\<open>str(n)\<close> for an integer, and the message each \<^verbatim>\<open>except\<close> clause stores in \<open>last_error\<close>.\<close>

fun str_nat :: "nat \<Rightarrow> string" where
  "str_nat n =
     (if n < 10 then [char_of (48 + n)]
      else str_nat (n div 10) @ [char_of (48 + n mod 10)])"

definition str_int :: "int \<Rightarrow> string" where
  "str_int i = (if i < 0 then CHR ''-'' # str_nat (nat (- i)) else str_nat (nat i))"

definition describe_failure :: "'f OllamaClient \<Rightarrow> request_failure \<Rightarrow> string" where
  "describe_failure self failure =
     (case failure of
        CaughtTimeout \<Rightarrow> ''Timeout after '' @ str_int (timeout self) @ ''s''
      | CaughtConnectionError e \<Rightarrow> ''Connection error: '' @ e
      | CaughtRequestException e \<Rightarrow> ''Request error: '' @ e
      | CaughtException e \<Rightarrow> ''Unexpected error: '' @ e)"

text \<open>
  The whole body of the \<^verbatim>\<open>try\<close>: the request, then \<^verbatim>\<open>_parse_json_response\<close> on its text. An
  exception that leaves \<^verbatim>\<open>_parse_json_response\<close> is caught by the last clause,
  \<^verbatim>\<open>except Exception\<close>, like an unexpected failure of the request; \<open>str_exn\<close> is \<^verbatim>\<open>str(e)\<close>
  for it. The attempt either fails or gives the raw text and the parsed object.
\<close>

definition attempt_outcome ::
    "json_loads \<Rightarrow> (py_exception \<Rightarrow> string) \<Rightarrow> 'f backend \<Rightarrow> 'f Payload \<Rightarrow> nat
     \<Rightarrow> request_failure + string \<times> json" where
  "attempt_outcome loads str_exn post payload attempt =
     (case post payload attempt of
        Inl failure \<Rightarrow> Inl failure
      | Inr raw_response \<Rightarrow>
          (case parse_json_response loads raw_response of
             Inl e \<Rightarrow> Inl (CaughtException (str_exn e))
           | Inr parsed \<Rightarrow> Inr (raw_response, parsed)))"

text \<open>
  What \<^verbatim>\<open>generate\<close> returns: the dictionary of an answered request (\<open>response\<close>, \<open>parsed\<close>,
  \<open>success\<close>, \<open>model\<close>, \<open>attempt\<close>), or the dictionary of the terminal failure (\<open>response\<close>
  and \<open>parsed\<close> are \<^verbatim>\<open>None\<close>, \<open>success\<close> is \<^verbatim>\<open>False\<close>, with \<open>error\<close>, \<open>model\<close>, \<open>attempt\<close>).
\<close>

datatype generate_result =
    Answered (answer_response: string) (answer_parsed: json) (answer_success: bool)
      (answer_model: string) (answer_attempt: int)
  | Failed (failure_error: "string option") (failure_model: string) (failure_attempt: int)

text \<open>
  What \<^verbatim>\<open>generate\<close> does to the world, in order: requests posted (with the number of the
  attempt) and calls of \<^verbatim>\<open>time.sleep\<close> that have returned (with the delay). The messages
  printed are left out.
\<close>

datatype 'f effect = Posted nat | Slept 'f

text \<open>
  The loop \<^verbatim>\<open>for attempt in range(self.max_retries)\<close>, over the attempts still to make.
  After a failed attempt that is not the last, \<^verbatim>\<open>time.sleep(self.retry_delay * (attempt + 1))\<close>
  runs outside the \<^verbatim>\<open>try\<close>. Two parameters stand for the standard library there: \<open>fmul\<close>
  is the product of a float and an integer, and \<open>sleep\<close> is \<^verbatim>\<open>time.sleep\<close>, which returns
  (\<open>None\<close>) or raises: \<open>ValueError\<close> for a negative delay and for NaN, \<open>OverflowError\<close> for a
  delay too large for the platform. An exception of \<^verbatim>\<open>time.sleep\<close> is caught by nothing and
  leaves \<^verbatim>\<open>generate\<close>.
\<close>

fun generate_loop ::
    "json_loads \<Rightarrow> (py_exception \<Rightarrow> string) \<Rightarrow> ('f \<Rightarrow> int \<Rightarrow> 'f) \<Rightarrow> ('f \<Rightarrow> py_exception option)
     \<Rightarrow> 'f backend \<Rightarrow> 'f OllamaClient \<Rightarrow> 'f Payload
     \<Rightarrow> string option \<Rightarrow> 'f effect list \<Rightarrow> nat list
     \<Rightarrow> py_exception + generate_result \<times> 'f effect list" where
  "generate_loop loads str_exn fmul sleep post self payload last_error effects [] =
     Inr (Failed last_error (model self) (max_retries self), effects)"
| "generate_loop loads str_exn fmul sleep post self payload last_error effects (attempt # later) =
     (case attempt_outcome loads str_exn post payload attempt of
        Inr (raw_response, parsed) \<Rightarrow>
          Inr (Answered raw_response parsed (parsed \<noteq> JNull) (model self) (int attempt + 1),
               effects @ [Posted attempt])
      | Inl failure \<Rightarrow>
          if int attempt < max_retries self - 1
          then (case sleep (fmul (retry_delay self) (int attempt + 1)) of
                  Some e \<Rightarrow> Inl e
                | None \<Rightarrow>
                    generate_loop loads str_exn fmul sleep post self payload
                      (Some (describe_failure self failure))
                      (effects @ [Posted attempt,
                                  Slept (fmul (retry_delay self) (int attempt + 1))])
                      later)
          else generate_loop loads str_exn fmul sleep post self payload
                 (Some (describe_failure self failure)) (effects @ [Posted attempt]) later)"

definition generate ::
    "json_loads \<Rightarrow> (py_exception \<Rightarrow> string) \<Rightarrow> ('f \<Rightarrow> int \<Rightarrow> 'f) \<Rightarrow> ('f \<Rightarrow> py_exception option)
     \<Rightarrow> 'f backend \<Rightarrow> 'f OllamaClient
     \<Rightarrow> string \<Rightarrow> string option \<Rightarrow> 'f \<Rightarrow> int \<Rightarrow> int option \<Rightarrow> json option
     \<Rightarrow> py_exception + generate_result \<times> 'f effect list" where
  "generate loads str_exn fmul sleep post self prompt system_prompt temperature max_tokens seed
     json_schema =
     generate_loop loads str_exn fmul sleep post self
       (build_payload self prompt system_prompt temperature max_tokens seed json_schema)
       None [] [0 ..< nat (max_retries self)]"

text \<open>
  The trace of a run in which every attempt fails and every sleep returns: each attempt is
  posted, and a sleep follows every attempt but the last. \<open>posts\<close> and \<open>delays\<close> read a
  trace.
\<close>

definition failing_trace :: "('f \<Rightarrow> int \<Rightarrow> 'f) \<Rightarrow> 'f OllamaClient \<Rightarrow> nat list \<Rightarrow> 'f effect list" where
  "failing_trace fmul self as =
     concat (map (\<lambda>a. Posted a #
                        (if int a < max_retries self - 1
                         then [Slept (fmul (retry_delay self) (int a + 1))] else []))
                 as)"

definition posts :: "'f effect list \<Rightarrow> nat list" where
  "posts effects = List.map_filter (\<lambda>e. case e of Posted a \<Rightarrow> Some a | Slept d \<Rightarrow> None) effects"

definition delays :: "'f effect list \<Rightarrow> 'f list" where
  "delays effects = List.map_filter (\<lambda>e. case e of Posted a \<Rightarrow> None | Slept d \<Rightarrow> Some d) effects"

text \<open>
  For the examples of this section, the floats are rational numbers: the delays of the
  examples are small integers, on which the product is exact, and \<^verbatim>\<open>time.sleep\<close> accepts
  those that are not negative and raises \<open>ValueError\<close> for a negative one.
\<close>

definition example_fmul :: "rat \<Rightarrow> int \<Rightarrow> rat" where
  "example_fmul d n = d * of_int n"

definition example_sleep :: "rat \<Rightarrow> py_exception option" where
  "example_sleep d = (if d < 0 then Some ValueError else None)"

text \<open>
  A decoder: \<^verbatim>\<open>json.loads\<close> cut down to the one document \<^verbatim>\<open>{}\<close>, with \<open>JSONDecodeError\<close> for
  every other text but the deeply nested one, on which it raises \<open>RecursionError\<close>.
\<close>

definition empty_object_loads :: json_loads where
  "empty_object_loads s =
     (if json_trim s = ''{}'' then Inr (JObj [])
      else if json_trim s = deeply_nested then Inl RecursionError
      else Inl JSONDecodeError)"

text \<open>
  Two clients, three attempts each: one with the delay \<open>2\<close>, one configured with the
  delay \<open>-1\<close>.
\<close>

definition example_client :: "rat OllamaClient" where
  "example_client =
     \<lparr>base_url = ''http://localhost:11434'', model = ''mistral'', timeout = 120,
      max_retries = 3, retry_delay = 2\<rparr>"

definition hasty_client :: "rat OllamaClient" where
  "hasty_client =
     \<lparr>base_url = ''http://localhost:11434'', model = ''mistral'', timeout = 120,
      max_retries = 3, retry_delay = - 1\<rparr>"

text \<open>
  Backends: one that answers every request with the same text, one whose first attempt
  times out and that answers from the second on, and one that is down: its first two
  attempts time out and the third is refused. \<open>exception_name\<close> stands for \<^verbatim>\<open>str(e)\<close>.
\<close>

definition answering :: "string \<Rightarrow> rat backend" where
  "answering raw payload attempt = Inr raw"

definition recovering :: "string \<Rightarrow> rat backend" where
  "recovering raw payload attempt = (if attempt = 0 then Inl CaughtTimeout else Inr raw)"

definition backend_down :: "rat backend" where
  "backend_down payload attempt =
     Inl (if attempt < 2 then CaughtTimeout else CaughtConnectionError ''refused'')"

definition exception_name :: "py_exception \<Rightarrow> string" where
  "exception_name e = ''error''"

section \<open>Notions of the proofs\<close>

text \<open>
  Two states of the replay that differ at most in the index of the last \<^verbatim>\<open>round_end\<close>
  line, which the result of \<^verbatim>\<open>find_last_complete_round\<close> does not depend on.
\<close>

definition same_but_idx :: "replay \<Rightarrow> replay \<Rightarrow> bool" where
  "same_but_idx st st' =
     (last_complete_round st = last_complete_round st'
      \<and> round_responses st = round_responses st'
      \<and> complete_rounds st = complete_rounds st')"

text \<open>
  The lines \<^verbatim>\<open>readlines\<close> returns: none is empty, a line feed ends every line but
  possibly the last, and stands nowhere else.
\<close>

fun cut_lines :: "string list \<Rightarrow> bool" where
  "cut_lines [] = True"
| "cut_lines [l] = (l \<noteq> [] \<and> CHR 0x0A \<notin> set (butlast l))"
| "cut_lines (l # ls) = (l \<noteq> [] \<and> CHR 0x0A \<notin> set (butlast l) \<and> last l = CHR 0x0A \<and> cut_lines ls)"

text \<open>
  The invariant of the replay of a well-formed log: after the events \<open>evs\<close>, the state
  holds the highest ended round (or \<open>-1\<close>) and, for every round and agent, the last
  response recorded for them.
\<close>

definition lookup2 :: "(pykey \<rightharpoonup> agent_states) \<Rightarrow> pykey \<Rightarrow> pykey \<Rightarrow> (json \<times> json) option" where
  "lookup2 rr r a = (case rr r of None \<Rightarrow> None | Some m \<Rightarrow> m a)"

definition round_key :: "int \<Rightarrow> pykey" where
  "round_key r = KNum (Num (of_int r))"

definition replay_inv :: "json list \<Rightarrow> replay \<Rightarrow> bool" where
  "replay_inv evs st =
     (last_complete_round st
        = (if ended_rounds evs = [] then Num (- 1) else Num (of_int (Max (set (ended_rounds evs)))))
      \<and> (\<forall>r k. lookup2 (round_responses st) (round_key r) k = last_response evs r k))"

section \<open>Proofs: time to collapse\<close>

lemma scan_windows_find:
  "scan_windows h t w js = List.find (\<lambda>i. list_all (\<lambda>x. x \<le> t) (py_slice h i (i + w))) js"
  by (induction js) simp_all

lemma py_slice_full:
  assumes "0 \<le> i" "0 \<le> w" "i + w \<le> int (length xs)"
  shows "py_slice xs i (i + w) = take (nat w) (drop (nat i) xs)"
  using assms by (simp add: py_slice_def Let_def min_def)

lemma list_all_window:
  assumes "0 \<le> i" "0 \<le> w" "i + w \<le> int (length h)"
  shows "list_all (\<lambda>x. x \<le> t) (take (nat w) (drop (nat i) h))
         = list_all (\<lambda>k. h ! nat (i + k) \<le> t) [0 .. w - 1]"
proof -
  have len: "length (take (nat w) (drop (nat i) h)) = nat w"
    using assms by simp
  have "list_all (\<lambda>x. x \<le> t) (take (nat w) (drop (nat i) h))
        = (\<forall>k < nat w. h ! (nat i + k) \<le> t)"
    using assms len by (simp add: list_all_length)
  also have "\<dots> = (\<forall>k. 0 \<le> k \<and> k \<le> w - 1 \<longrightarrow> h ! nat (i + k) \<le> t)"
  proof
    assume a: "\<forall>k < nat w. h ! (nat i + k) \<le> t"
    show "\<forall>k. 0 \<le> k \<and> k \<le> w - 1 \<longrightarrow> h ! nat (i + k) \<le> t"
    proof (intro allI impI)
      fix k :: int assume k: "0 \<le> k \<and> k \<le> w - 1"
      then have "nat k < nat w" by arith
      with a have "h ! (nat i + nat k) \<le> t" by blast
      moreover have "nat i + nat k = nat (i + k)" using k assms by arith
      ultimately show "h ! nat (i + k) \<le> t" by simp
    qed
  next
    assume a: "\<forall>k. 0 \<le> k \<and> k \<le> w - 1 \<longrightarrow> h ! nat (i + k) \<le> t"
    show "\<forall>k < nat w. h ! (nat i + k) \<le> t"
    proof (intro allI impI)
      fix k :: nat assume k: "k < nat w"
      then have "0 \<le> int k \<and> int k \<le> w - 1" by arith
      with a have "h ! nat (i + int k) \<le> t" by blast
      moreover have "nat (i + int k) = nat i + k" using assms by arith
      ultimately show "h ! (nat i + k) \<le> t" by simp
    qed
  qed
  also have "\<dots> = list_all (\<lambda>k. h ! nat (i + k) \<le> t) [0 .. w - 1]"
    by (auto simp: list_all_iff)
  finally show ?thesis .
qed

lemma slice_ok_iff:
  assumes "0 < w" "0 \<le> i" "i \<le> int (length h) - w"
  shows "list_all (\<lambda>x. x \<le> t) (py_slice h i (i + w)) = window_collapsed h t w i"
  using assms py_slice_full [of i w h] list_all_window [of i w h t]
  by (simp add: window_collapsed_def)

lemma find_upto_Some:
  "(List.find P [0 .. m] = Some i) = (0 \<le> i \<and> i \<le> m \<and> P i \<and> (\<forall>j. 0 \<le> j \<and> j < i \<longrightarrow> \<not> P j))"
proof
  assume "List.find P [0 .. m] = Some i"
  then obtain k where k: "k < length [0 .. m]" "P ([0..m] ! k)" "i = [0..m] ! k"
     "\<forall>j<k. \<not> P ([0..m] ! j)"
    unfolding find_Some_iff by blast
  have ik: "i = int k" and km: "int k \<le> m" using k(1,3) by (simp_all add: nth_upto)
  have "\<not> P j" if "0 \<le> j \<and> j < i" for j
  proof -
    have "nat j < k" using that ik by arith
    with k(4) have "\<not> P ([0..m] ! nat j)" by blast
    moreover have "[0..m] ! nat j = j" using that ik km by (simp add: nth_upto)
    ultimately show ?thesis by simp
  qed
  with k ik km show "0 \<le> i \<and> i \<le> m \<and> P i \<and> (\<forall>j. 0 \<le> j \<and> j < i \<longrightarrow> \<not> P j)"
    by auto
next
  assume a: "0 \<le> i \<and> i \<le> m \<and> P i \<and> (\<forall>j. 0 \<le> j \<and> j < i \<longrightarrow> \<not> P j)"
  have "nat i < length [0 .. m]" using a by simp
  moreover have "[0..m] ! nat i = i" using a by (simp add: nth_upto)
  moreover have "\<forall>j < nat i. \<not> P ([0..m] ! j)"
  proof (intro allI impI)
    fix j assume "j < nat i"
    then have lt: "0 \<le> int j \<and> int j < i" by arith
    then have "0 + int j \<le> m" using a by arith
    then have "[0..m] ! j = int j" by (simp add: nth_upto)
    with a lt show "\<not> P ([0..m] ! j)" by simp
  qed
  ultimately show "List.find P [0 .. m] = Some i"
    unfolding find_Some_iff using a by (intro exI [of _ "nat i"]) simp
qed

lemma find_upto_None:
  "(List.find P [0 .. m] = None) = (\<forall>i. 0 \<le> i \<and> i \<le> m \<longrightarrow> \<not> P i)"
  by (auto simp: find_None_iff)

lemma time_to_collapse_Some:
  assumes "0 < w"
  shows "(calculate_time_to_collapse h t w = Some i) =
           (window_collapsed h t w i \<and> (\<forall>j. 0 \<le> j \<and> j < i \<longrightarrow> \<not> window_collapsed h t w j))"
proof -
  let ?P = "\<lambda>i. list_all (\<lambda>x. x \<le> t) (py_slice h i (i + w))"
  let ?m = "int (length h) - w"
  have P: "?P j = window_collapsed h t w j" if "0 \<le> j" "j \<le> ?m" for j
    using slice_ok_iff [OF assms that] .
  have out: "\<not> window_collapsed h t w j" if "j < 0 \<or> ?m < j" for j
    using that by (auto simp: window_collapsed_def)
  show ?thesis
  proof (cases "h = []")
    case True
    then show ?thesis using assms by (auto simp: calculate_time_to_collapse_def window_collapsed_def)
  next
    case False
    then have "(calculate_time_to_collapse h t w = Some i) =
        (0 \<le> i \<and> i \<le> ?m \<and> ?P i \<and> (\<forall>j. 0 \<le> j \<and> j < i \<longrightarrow> \<not> ?P j))"
      by (simp add: calculate_time_to_collapse_def scan_windows_find find_upto_Some)
    also have "\<dots> = (0 \<le> i \<and> i \<le> ?m \<and> window_collapsed h t w i \<and> (\<forall>j. 0 \<le> j \<and> j < i \<longrightarrow> \<not> window_collapsed h t w j))"
      using P by (smt (verit, best))
    also have "\<dots> = (window_collapsed h t w i \<and> (\<forall>j. 0 \<le> j \<and> j < i \<longrightarrow> \<not> window_collapsed h t w j))"
      using out [of i] by (auto simp: window_collapsed_def)
    finally show ?thesis .
  qed
qed

lemma time_to_collapse_None:
  assumes "0 < w"
  shows "(calculate_time_to_collapse h t w = None) = (\<forall>j. \<not> window_collapsed h t w j)"
proof -
  let ?P = "\<lambda>i. list_all (\<lambda>x. x \<le> t) (py_slice h i (i + w))"
  let ?m = "int (length h) - w"
  have P: "?P j = window_collapsed h t w j" if "0 \<le> j" "j \<le> ?m" for j
    using slice_ok_iff [OF assms that] .
  have out: "\<not> window_collapsed h t w j" if "j < 0 \<or> ?m < j" for j
    using that by (auto simp: window_collapsed_def)
  show ?thesis
  proof (cases "h = []")
    case True
    then show ?thesis using assms by (auto simp: calculate_time_to_collapse_def window_collapsed_def)
  next
    case False
    then have "(calculate_time_to_collapse h t w = None) = (\<forall>j. 0 \<le> j \<and> j \<le> ?m \<longrightarrow> \<not> ?P j)"
      by (simp add: calculate_time_to_collapse_def scan_windows_find find_upto_None)
    also have "\<dots> = (\<forall>j. 0 \<le> j \<and> j \<le> ?m \<longrightarrow> \<not> window_collapsed h t w j)"
      using P by simp
    also have "\<dots> = (\<forall>j. \<not> window_collapsed h t w j)"
      using out by (metis not_le_imp_less)
    finally show ?thesis .
  qed
qed

text \<open>
  \<^bold>\<open>Claim C3\<close>, as the specification states it: \<^verbatim>\<open>time_to_collapse\<close> returns the smallest
  round index \<open>i\<close> such that every entropy value in \<^verbatim>\<open>history[i : i+window]\<close> is at most the
  threshold, and none if there is no such index. The statement fails on the code: in the
  one-round history \<open>[0.1]\<close> with threshold \<open>0.469\<close> and window \<open>2\<close>, every value of the
  slice \<^verbatim>\<open>history[0:2]\<close> (which is \<open>[0.1]\<close>) is below the threshold, so the stated result is
  index \<open>0\<close>; the function returns none, because its loop only visits the starts of full
  windows.
\<close>

theorem time_to_collapse_slice_counterexample:
  "slice_collapsed [1 / 10] (469 / 1000) 2 0
   \<and> calculate_time_to_collapse [1 / 10] (469 / 1000) 2 = None
   \<and> \<not> spec_time_to_collapse [1 / 10] (469 / 1000) 2
         (calculate_time_to_collapse [1 / 10] (469 / 1000) 2)"
  by (simp add: calculate_time_to_collapse_def spec_time_to_collapse_def slice_collapsed_def
      py_slice_def upto.simps)

text \<open>
  \<^bold>\<open>Claim C3\<close>, amended: for every entropy history, threshold and window size \<open>w \<ge> 1\<close>,
  \<^verbatim>\<open>calculate_time_to_collapse\<close> returns the smallest index \<open>i\<close> with \<open>i + w \<le> len(history)\<close>
  such that each of the \<open>w\<close> values \<open>history[i], \<dots>, history[i+w-1]\<close> is at most the
  threshold, and it returns none exactly when the history has no such full window.
\<close>

theorem time_to_collapse_smallest_full_window:
  assumes "0 < w"
  shows "((calculate_time_to_collapse h t w = Some i) =
            (window_collapsed h t w i \<and> (\<forall>j. 0 \<le> j \<and> j < i \<longrightarrow> \<not> window_collapsed h t w j)))
       \<and> ((calculate_time_to_collapse h t w = None) = (\<forall>j. \<not> window_collapsed h t w j))"
  using time_to_collapse_Some [OF assms] time_to_collapse_None [OF assms] by simp

text \<open>
  The specification's example, through the theorem: in \<open>[1.0, 0.9, 0.4, 0.3, 0.2]\<close> with
  threshold \<open>0.469\<close> and window \<open>2\<close> the result is index \<open>2\<close>, the window at \<open>2\<close> has
  collapsed and the windows at \<open>0\<close> and \<open>1\<close> have not.
\<close>

theorem time_to_collapse_smallest_full_window_witness:
  "(0::int) < 2
   \<and> calculate_time_to_collapse [1, 9 / 10, 4 / 10, 3 / 10, 2 / 10] (469 / 1000) 2 = Some 2
   \<and> window_collapsed [1, 9 / 10, 4 / 10, 3 / 10, 2 / 10] (469 / 1000) 2 2
   \<and> \<not> window_collapsed [1, 9 / 10, 4 / 10, 3 / 10, 2 / 10] (469 / 1000) 2 0
   \<and> \<not> window_collapsed [1, 9 / 10, 4 / 10, 3 / 10, 2 / 10] (469 / 1000) 2 1"
proof -
  let ?h = "[1, 9 / 10, 4 / 10, 3 / 10, 2 / 10] :: real list"
  have r: "calculate_time_to_collapse ?h (469 / 1000) 2 = Some 2"
    by (simp add: calculate_time_to_collapse_def py_slice_def upto.simps)
  have w: "(0::int) < 2" by simp
  from time_to_collapse_smallest_full_window [OF w, of ?h "469 / 1000" 2] r
  have "window_collapsed ?h (469 / 1000) 2 2
        \<and> (\<forall>j. 0 \<le> j \<and> j < 2 \<longrightarrow> \<not> window_collapsed ?h (469 / 1000) 2 j)"
    by blast
  then have "window_collapsed ?h (469 / 1000) 2 2"
    and "\<not> window_collapsed ?h (469 / 1000) 2 0"
    and "\<not> window_collapsed ?h (469 / 1000) 2 1"
    by simp_all
  with r show ?thesis by simp
qed

text \<open>
  \<^bold>\<open>Claim C9\<close>: for every entropy history whose length is strictly less than the window
  size, \<^verbatim>\<open>calculate_time_to_collapse\<close> returns none, whatever the values of the history
  are: the range of the loop is empty.
\<close>

theorem time_to_collapse_short_history:
  "int (length h) < w \<Longrightarrow> calculate_time_to_collapse h t w = None"
  by (simp add: calculate_time_to_collapse_def)

text \<open>
  The one-element history \<open>[0.1]\<close> with threshold \<open>0.469\<close> and window \<open>2\<close>: its only value
  is below the threshold, and the result is none.
\<close>

theorem time_to_collapse_short_history_witness:
  "int (length [1 / 10 :: real]) < 2 \<and> (1 / 10 :: real) \<le> 469 / 1000
   \<and> calculate_time_to_collapse [1 / 10] (469 / 1000) 2 = None"
proof -
  have l: "int (length [1 / 10 :: real]) < 2" by simp
  from time_to_collapse_short_history [OF l] show ?thesis by simp
qed

section \<open>Proofs: the stance distribution\<close>












section \<open>Proofs: replaying the log\<close>

subsection \<open>Lines that are not valid JSON\<close>

lemma or_raise_simps [simp]:
  "or_raise (Inl e) f = Inl e"
  "or_raise (Inr x) f = f x"
  by (simp_all add: or_raise_def)

lemma or_raise_rel:
  assumes "\<And>x. rel_sum (=) R (f x) (g x)"
  shows "rel_sum (=) R (or_raise m f) (or_raise m g)"
  using assms by (cases m) simp_all

lemma record_response_rel:
  assumes "same_but_idx st st'"
  shows "rel_sum (=) same_but_idx (record_response st data) (record_response st' data)"
  unfolding record_response_def
  using assms by (intro or_raise_rel) (simp add: same_but_idx_def Let_def)

lemma record_round_end_rel:
  assumes "same_but_idx st st'"
  shows "rel_sum (=) same_but_idx (record_round_end st i data) (record_round_end st' j data)"
proof -
  have eq: "last_complete_round st = last_complete_round st'"
    using assms by (simp add: same_but_idx_def)
  show ?thesis
    unfolding record_round_end_def eq
    using assms by (intro or_raise_rel) (simp add: same_but_idx_def Let_def)
qed

lemma replay_event_rel:
  assumes "same_but_idx st st'"
  shows "rel_sum (=) same_but_idx (replay_event st i data) (replay_event st' j data)"
  unfolding replay_event_def
  using assms record_response_rel [OF assms] record_round_end_rel [OF assms]
  by (intro or_raise_rel) simp

lemma replay_line_rel:
  assumes "same_but_idx st st'"
  shows "rel_sum (=) same_but_idx (replay_line loads st i line) (replay_line loads st' j line)"
  using assms replay_event_rel [OF assms]
  by (simp add: replay_line_def Let_def split: sum.splits)

lemma replay_line_invalid:
  "decode_error loads line \<Longrightarrow> replay_line loads st i line = Inr st"
  by (simp add: replay_line_def decode_error_def Let_def)

lemma replay_line_raises:
  "raises_other loads line \<Longrightarrow> \<exists>e. replay_line loads st i line = Inl e"
  by (auto simp: replay_line_def raises_other_def Let_def split: sum.splits)

lemma replay_lines_raises:
  "list_ex (raises_other loads) lines \<Longrightarrow> \<exists>e. replay_lines loads st i lines = Inl e"
proof (induction lines arbitrary: st i)
  case Nil
  then show ?case by simp
next
  case (Cons line lines)
  show ?case
  proof (cases "replay_line loads st i line")
    case (Inl e)
    then show ?thesis by simp
  next
    case (Inr st')
    with replay_line_raises [of loads line st i] have "\<not> raises_other loads line" by auto
    with Cons.prems have "list_ex (raises_other loads) lines" by simp
    from Cons.IH [OF this, of st' "i + 1"] Inr show ?thesis by simp
  qed
qed

lemma replay_lines_rel:
  assumes "same_but_idx st st'"
  shows "rel_sum (=) same_but_idx
           (replay_lines loads st i lines)
           (replay_lines loads st' j (filter (\<lambda>l. \<not> decode_error loads l) lines))"
  using assms
proof (induction lines arbitrary: st st' i j)
  case Nil
  then show ?case by simp
next
  case (Cons line lines)
  show ?case
  proof (cases "\<not> decode_error loads line")
    case True
    have rel: "rel_sum (=) same_but_idx (replay_line loads st i line) (replay_line loads st' j line)"
      by (rule replay_line_rel [OF Cons.prems])
    show ?thesis
    proof (cases "replay_line loads st i line")
      case (Inl e)
      with rel have "replay_line loads st' j line = Inl e"
        by (cases "replay_line loads st' j line") simp_all
      with Inl True show ?thesis by simp
    next
      case (Inr s)
      with rel obtain s' where s': "replay_line loads st' j line = Inr s'" "same_but_idx s s'"
        by (cases "replay_line loads st' j line") simp_all
      with Inr True Cons.IH [OF s'(2), of "i + 1" "j + 1"] show ?thesis by simp
    qed
  next
    case False
    with Cons.IH [OF Cons.prems, of "i + 1" j] show ?thesis
      by (simp add: replay_line_invalid)
  qed
qed

lemma same_but_idx_refl: "same_but_idx st st"
  by (simp add: same_but_idx_def)

subsection \<open>Lines cut from a text\<close>

lemma concat_readlines: "concat (readlines s) = s"
  by (induction s) (auto split: list.splits)

lemma cut_lines_readlines: "cut_lines (readlines s)"
proof (induction s)
  case Nil
  then show ?case by simp
next
  case (Cons c s)
  show ?case
  proof (cases "c = CHR 0x0A")
    case True
    with Cons show ?thesis by (cases "readlines s") simp_all
  next
    case False
    show ?thesis
    proof (cases "readlines s")
      case Nil
      with False show ?thesis by simp
    next
      case (Cons l ls)
      with False Cons.IH \<open>cut_lines (readlines s)\<close> show ?thesis
        by (cases ls) (auto simp: butlast.simps split: if_splits)
    qed
  qed
qed

lemma readlines_line:
  assumes "l \<noteq> []" "CHR 0x0A \<notin> set (butlast l)" "last l = CHR 0x0A"
  shows "readlines (l @ s) = l # readlines s"
  using assms
proof (induction l)
  case Nil
  then show ?case by simp
next
  case (Cons c l)
  show ?case
  proof (cases "l = []")
    case True
    with Cons.prems show ?thesis by simp
  next
    case False
    with Cons.prems have "c \<noteq> CHR 0x0A" "CHR 0x0A \<notin> set (butlast l)" "last l = CHR 0x0A"
      by auto
    with False Cons.IH show ?thesis by simp
  qed
qed

lemma readlines_last_line:
  assumes "l \<noteq> []" "CHR 0x0A \<notin> set (butlast l)"
  shows "readlines l = [l]"
  using assms
proof (induction l)
  case Nil
  then show ?case by simp
next
  case (Cons c l)
  show ?case
  proof (cases "l = []")
    case True
    then show ?thesis by simp
  next
    case False
    with Cons.prems have "c \<noteq> CHR 0x0A" "CHR 0x0A \<notin> set (butlast l)" by auto
    with False Cons.IH show ?thesis by simp
  qed
qed

lemma readlines_concat: "cut_lines ls \<Longrightarrow> readlines (concat ls) = ls"
proof (induction ls rule: cut_lines.induct)
  case 1
  then show ?case by simp
next
  case (2 l)
  then show ?case by (simp add: readlines_last_line)
next
  case (3 l k ls)
  then show ?case by (simp add: readlines_line)
qed

lemma cut_lines_tail: "cut_lines (l # ls) \<Longrightarrow> cut_lines ls"
  by (cases ls) simp_all

lemma cut_lines_head: "cut_lines (l # ls) \<Longrightarrow> l \<noteq> [] \<and> CHR 0x0A \<notin> set (butlast l)"
  by (cases ls) simp_all

lemma cut_lines_filter: "cut_lines ls \<Longrightarrow> cut_lines (filter P ls)"
proof (induction ls)
  case Nil
  then show ?case by simp
next
  case (Cons l ls)
  then have t: "cut_lines (filter P ls)" by (simp add: cut_lines_tail)
  show ?case
  proof (cases "P l")
    case False
    with t show ?thesis by simp
  next
    case True
    show ?thesis
    proof (cases "filter P ls")
      case Nil
      with True cut_lines_head [OF Cons.prems] show ?thesis by simp
    next
      case (Cons k ks)
      then have "ls \<noteq> []" by auto
      then obtain m ms where "ls = m # ms" by (cases ls) auto
      with Cons.prems have "l \<noteq> [] \<and> CHR 0x0A \<notin> set (butlast l) \<and> last l = CHR 0x0A"
        by simp
      with True t Cons show ?thesis by simp
    qed
  qed
qed

lemma readlines_filter:
  "readlines (concat (filter P (readlines s))) = filter P (readlines s)"
  by (simp add: readlines_concat cut_lines_filter cut_lines_readlines)

subsection \<open>The example log, evaluated\<close>

lemma example_readlines: "readlines (concat example_log) = example_log"
  by (simp add: example_log_def)

lemma example_decoded:
  "decoded example_loads example_log
   = [response_event 0 ''a1'' ''PULL_LEVER'' ''r1'', round_end_event 0,
      response_event 1 ''a1'' ''PULL_LEVER'' ''r2'', response_event 1 ''a1'' ''DO_NOT_PULL'' ''r3'',
      round_end_event 1]"
  by (simp add: decoded_def map_filter_def example_log_def strip_def py_isspace_def
      example_loads_def json_trim_def)

lemma example_log_ok: "log_ok example_loads (concat example_log)"
  unfolding log_ok_def example_readlines
  by (simp add: example_log_def line_ok_def strip_def py_isspace_def example_loads_def
      json_trim_def event_ok_def event_kind_def dict_get_def round_end_of_def response_of_def
      response_event_def round_end_event_def)

lemma example_kept_lines:
  "filter (\<lambda>l. \<not> decode_error example_loads l) example_log = butlast example_log"
  by (simp add: example_log_def decode_error_def strip_def py_isspace_def example_loads_def
      json_trim_def)

lemma example_targets:
  "map (is_target_round_end example_loads 0) example_log = [False, True, False, False, False, False]"
  "map (is_target_round_end example_loads 1) example_log = [False, False, False, False, True, False]"
  "map (is_target_round_end example_loads 2) example_log = [False, False, False, False, False, False]"
  by (simp_all add: example_log_def is_target_round_end_def example_loads_def json_trim_def
      dict_get_def py_eq_int_def as_num_def response_event_def round_end_event_def)

lemma round_end_index_map:
  "round_end_index loads target lines
   = (let hits = map (is_target_round_end loads target) lines;
          before = takeWhile (\<lambda>hit. \<not> hit) hits
      in if length before < length hits then Some (length before) else None)"
  by (simp add: round_end_index_def Let_def takeWhile_map comp_def)

lemma example_round_end_index_0: "round_end_index example_loads 0 example_log = Some 1"
  by (simp add: round_end_index_map example_targets)

lemma example_round_end_index_1: "round_end_index example_loads 1 example_log = Some 4"
  by (simp add: round_end_index_map example_targets)

lemma example_round_end_index_2: "round_end_index example_loads 2 example_log = None"
  by (simp add: round_end_index_map example_targets)

lemma dropWhile_replicate:
  "\<not> P c \<Longrightarrow> dropWhile P (replicate n c) = replicate n c"
  by (cases n) simp_all

lemma strip_deeply_nested: "strip deeply_nested = deeply_nested"
  by (simp add: strip_def deeply_nested_def dropWhile_replicate py_isspace_def)

lemma json_trim_deeply_nested: "json_trim deeply_nested = deeply_nested"
  by (simp add: json_trim_def deeply_nested_def dropWhile_replicate)

lemma deeply_nested_Cons:
  "(c # cs = deeply_nested) = (c = CHR ''['' \<and> cs = replicate 99999 (CHR ''[''))"
proof -
  have "(100000 :: nat) = Suc 99999" by simp
  then have e: "deeply_nested = CHR ''['' # replicate 99999 (CHR ''['')"
    unfolding deeply_nested_def by (simp only: replicate_Suc)
  show ?thesis unfolding e by (rule list.inject)
qed

lemma deeply_nested_nonempty: "deeply_nested \<noteq> []"
  using deeply_nested_Cons [of "CHR ''[''" "replicate 99999 (CHR ''['')"] by auto

lemma raises_deeply_nested: "raises_other deep_loads deeply_nested"
  by (simp add: raises_other_def strip_deeply_nested deep_loads_def json_trim_deeply_nested
      deeply_nested_nonempty)

lemma garbled_readlines:
  "readlines (concat (take 5 example_log @ [deeply_nested])) = take 5 example_log @ [deeply_nested]"
proof (rule readlines_concat)
  have "deeply_nested \<noteq> []" by (rule deeply_nested_nonempty)
  moreover have "CHR 0x0A \<notin> set (butlast deeply_nested)"
  proof
    assume "CHR 0x0A \<in> set (butlast deeply_nested)"
    then have "CHR 0x0A \<in> set deeply_nested" by (rule in_set_butlastD)
    then show False by (simp add: deeply_nested_def)
  qed
  ultimately show "cut_lines (take 5 example_log @ [deeply_nested])"
    by (simp add: example_log_def)
qed

lemma good_readlines: "readlines (concat (take 5 example_log)) = take 5 example_log"
  by (simp add: example_log_def)

lemma good_replay:
  "\<exists>st. replay_lines deep_loads replay_init 0 (take 5 example_log) = Inr st
        \<and> last_complete_round st = Num 1"
  by (simp add: example_log_def replay_line_def strip_def py_isspace_def deep_loads_def
      deeply_nested_Cons example_loads_def json_trim_def replay_event_def record_response_def
      record_round_end_def dict_get_def key_of_def as_num_def py_gt_num_def replay_init_def
      response_event_def round_end_event_def or_raise_def Let_def)

text \<open>
  \<^bold>\<open>Claim C10\<close>, as stated: a line that is not valid JSON is skipped, and a partial or
  garbled line never makes the replay fail or changes what it reconstructs. The statement
  fails on the code, which passes over \<open>JSONDecodeError\<close> only. With the garbled line of a
  hundred thousand opening brackets after the five good lines of the example log, \<^verbatim>\<open>json.loads\<close>
  raises \<^verbatim>\<open>RecursionError\<close>, the outer handler returns \<open>(None, {})\<close>, and round \<open>1\<close>, complete
  in the good lines, is lost. And when the last line is cut in the middle of a character,
  reading the file raises \<^verbatim>\<open>UnicodeDecodeError\<close>, with the same result.
\<close>

theorem find_last_complete_round_garbled_line_counterexample:
  "deep_loads (strip deeply_nested) = Inl RecursionError
   \<and> find_last_complete_round deep_loads
         (Readable (concat (take 5 example_log @ [deeply_nested]))) = (None, Map.empty)
   \<and> fst (find_last_complete_round deep_loads (Readable (concat (take 5 example_log))))
       = Some (Num 1)
   \<and> find_last_complete_round deep_loads
         (Unreadable (concat (take 5 example_log) @ ''{\"rationale\": \"caf'' @ [CHR 0xC3]))
       = (None, Map.empty)"
proof (intro conjI)
  show d: "deep_loads (strip deeply_nested) = Inl RecursionError"
    by (simp add: deep_loads_def strip_deeply_nested json_trim_deeply_nested)
  have "raises_other deep_loads deeply_nested"
    by (rule raises_deeply_nested)
  then have "list_ex (raises_other deep_loads) (take 5 example_log @ [deeply_nested])"
    by simp
  then obtain e where "replay_lines deep_loads replay_init 0
                         (take 5 example_log @ [deeply_nested]) = Inl e"
    using replay_lines_raises by blast
  moreover have "readlines (concat (take 5 example_log) @ deeply_nested)
                 = take 5 example_log @ [deeply_nested]"
    using garbled_readlines by simp
  ultimately show "find_last_complete_round deep_loads
         (Readable (concat (take 5 example_log @ [deeply_nested]))) = (None, Map.empty)"
    by (simp add: find_last_complete_round_def)
  from good_replay obtain st
    where "replay_lines deep_loads replay_init 0 (take 5 example_log) = Inr st"
      and "last_complete_round st = Num 1"
    by blast
  then show "fst (find_last_complete_round deep_loads (Readable (concat (take 5 example_log))))
       = Some (Num 1)"
    by (simp add: find_last_complete_round_def good_readlines)
  show "find_last_complete_round deep_loads
         (Unreadable (concat (take 5 example_log) @ ''{\"rationale\": \"caf'' @ [CHR 0xC3]))
       = (None, Map.empty)"
    by (simp add: find_last_complete_round_def)
qed

text \<open>
  \<^bold>\<open>Claim C10\<close>, amended: \<^verbatim>\<open>find_last_complete_round\<close> tolerates the lines on which decoding
  raises \<open>JSONDecodeError\<close>: for every log, such a line is skipped, and the result (the last
  complete round and the agents' states) is the result of the replay of the log without
  these lines. When decoding a line that is not blank raises another exception, and when
  the file cannot be read, the function returns \<open>(None, {})\<close>.
\<close>

theorem find_last_complete_round_skips_decode_errors:
  "(decode_error loads line \<longrightarrow> replay_line loads st i line = Inr st)
   \<and> find_last_complete_round loads (Readable text)
       = find_last_complete_round loads
           (Readable (concat (filter (\<lambda>l. \<not> decode_error loads l) (readlines text))))
   \<and> (list_ex (raises_other loads) (readlines text)
        \<longrightarrow> find_last_complete_round loads (Readable text) = (None, Map.empty))
   \<and> find_last_complete_round loads (Unreadable bytes) = (None, Map.empty)"
proof (intro conjI impI)
  assume "decode_error loads line"
  then show "replay_line loads st i line = Inr st"
    by (rule replay_line_invalid)
next
  let ?all = "replay_lines loads replay_init 0 (readlines text)"
  let ?kept = "replay_lines loads replay_init 0
                 (filter (\<lambda>l. \<not> decode_error loads l) (readlines text))"
  have rel: "rel_sum (=) same_but_idx ?all ?kept"
    by (rule replay_lines_rel [OF same_but_idx_refl])
  show "find_last_complete_round loads (Readable text)
       = find_last_complete_round loads
           (Readable (concat (filter (\<lambda>l. \<not> decode_error loads l) (readlines text))))"
  proof (cases ?all)
    case (Inl e)
    with rel have "?kept = Inl e" by (cases ?kept) simp_all
    with Inl show ?thesis by (simp add: find_last_complete_round_def readlines_filter)
  next
    case (Inr s)
    with rel obtain s' where "?kept = Inr s'" "same_but_idx s s'"
      by (cases ?kept) simp_all
    with Inr show ?thesis
      by (simp add: find_last_complete_round_def readlines_filter same_but_idx_def)
  qed
next
  assume "list_ex (raises_other loads) (readlines text)"
  then obtain e where "replay_lines loads replay_init 0 (readlines text) = Inl e"
    using replay_lines_raises by blast
  then show "find_last_complete_round loads (Readable text) = (None, Map.empty)"
    by (simp add: find_last_complete_round_def)
next
  show "find_last_complete_round loads (Unreadable bytes) = (None, Map.empty)"
    by (simp add: find_last_complete_round_def)
qed

text \<open>
  The example log and claim C10: its last line is cut short and decoding it raises
  \<open>JSONDecodeError\<close>; the replay skips it, and the result on the whole log is the result on its first five lines.
  With the line of a hundred thousand opening brackets in its place, on which decoding raises
  \<open>RecursionError\<close>, the result is \<open>(None, {})\<close>.
\<close>

theorem find_last_complete_round_skips_decode_errors_witness:
  "decode_error example_loads (last example_log)
   \<and> replay_line example_loads replay_init 5 (last example_log) = Inr replay_init
   \<and> find_last_complete_round example_loads (Readable (concat example_log))
       = find_last_complete_round example_loads (Readable (concat (butlast example_log)))
   \<and> list_ex (raises_other deep_loads) (take 5 example_log @ [deeply_nested])
   \<and> find_last_complete_round deep_loads
         (Readable (concat (take 5 example_log @ [deeply_nested]))) = (None, Map.empty)"
proof -
  have "raises_other deep_loads deeply_nested"
    by (rule raises_deeply_nested)
  then have bad: "list_ex (raises_other deep_loads) (take 5 example_log @ [deeply_nested])"
    by simp
  have "list_ex (raises_other deep_loads)
          (readlines (concat (take 5 example_log @ [deeply_nested])))
        \<longrightarrow> find_last_complete_round deep_loads
              (Readable (concat (take 5 example_log @ [deeply_nested]))) = (None, Map.empty)"
    by (rule find_last_complete_round_skips_decode_errors
               [of deep_loads "last example_log" replay_init 5
                   "concat (take 5 example_log @ [deeply_nested])" "[]",
                THEN conjunct2, THEN conjunct2, THEN conjunct1])
  with bad have garbled: "find_last_complete_round deep_loads
         (Readable (concat (take 5 example_log @ [deeply_nested]))) = (None, Map.empty)"
    by (simp only: garbled_readlines)
  have inv: "decode_error example_loads (last example_log)"
    by (simp add: example_log_def decode_error_def strip_def py_isspace_def example_loads_def
        json_trim_def)
  from find_last_complete_round_skips_decode_errors
         [of example_loads "last example_log" replay_init 5 "concat example_log"] inv bad garbled
  show ?thesis by (simp add: example_readlines example_kept_lines)
qed

subsection \<open>The replay of a well-formed log\<close>

lemma round_key_inj [simp]: "(round_key r = round_key n) = (r = n)"
  by (simp add: round_key_def)

lemma replay_inv_init: "replay_inv [] replay_init"
  by (simp add: replay_inv_def replay_init_def ended_rounds_def map_filter_simps lookup2_def
      last_response_def responses_of_def split: pykey.splits)

lemma ended_rounds_snoc:
  "ended_rounds (evs @ [d]) = ended_rounds evs @ (case round_end_of d of None \<Rightarrow> [] | Some n \<Rightarrow> [n])"
  by (simp add: ended_rounds_def map_filter_def split: option.splits)

lemma responses_of_snoc:
  "responses_of (evs @ [d]) r a
   = responses_of evs r a
     @ (case response_of d of
          None \<Rightarrow> []
        | Some (n, b, state) \<Rightarrow> if n = r \<and> b = a then [state] else [])"
  by (simp add: responses_of_def map_filter_def split: option.splits)

lemma last_response_snoc_other:
  "response_of d = None \<Longrightarrow> last_response (evs @ [d]) r k = last_response evs r k"
  by (cases k) (simp_all add: last_response_def responses_of_snoc)

lemma last_of_snoc:
  "(case xs @ [x] of [] \<Rightarrow> None | r # rs \<Rightarrow> Some (last (r # rs))) = Some x"
proof (cases "xs @ [x]")
  case Nil
  then show ?thesis by simp
next
  case (Cons r rs)
  have "last (xs @ [x]) = x" by simp
  with Cons show ?thesis by simp
qed

lemma last_response_snoc_same:
  "response_of d = Some (n, a, state) \<Longrightarrow> last_response (evs @ [d]) n (KStr a) = Some state"
  by (simp add: last_response_def responses_of_snoc last_of_snoc)

lemma event_kind_distinct:
  "event_kind d ''round_end'' \<Longrightarrow> \<not> event_kind d ''agent_response''"
  by (simp add: event_kind_def)

lemma replay_event_other:
  assumes "event_ok d" "\<not> event_kind d ''round_end''" "\<not> event_kind d ''agent_response''"
  shows "replay_event st i d = Inr st"
    and "round_end_of d = None" and "response_of d = None"
  using assms
  by (auto simp: event_ok_def replay_event_def event_kind_def dict_get_def round_end_of_def
      response_of_def split: json.splits)

lemma replay_event_round_end:
  assumes "event_ok d" "event_kind d ''round_end''"
  obtains n where "round_end_of d = Some n" "0 \<le> n" "response_of d = None"
    "replay_event st i d
     = Inr (if num_gt (Num (of_int n)) (last_complete_round st)
            then st\<lparr>complete_rounds := insert (round_key n) (complete_rounds st),
                    last_complete_round := Num (of_int n), last_round_end_line_idx := i\<rparr>
            else st\<lparr>complete_rounds := insert (round_key n) (complete_rounds st)\<rparr>)"
proof -
  from assms obtain kvs where d: "d = JObj kvs" by (cases d) (simp_all add: event_ok_def)
  from assms d obtain n where n: "round_end_of d = Some n" "0 \<le> n"
    by (auto simp: event_ok_def split: option.splits)
  with assms(2) have r: "dict_get d ''round'' = Inr (JInt n)"
    by (auto simp: round_end_of_def split: sum.splits json.splits)
  have t: "dict_get d ''type'' = Inr (JStr ''round_end'')"
    using assms(2) by (simp add: event_kind_def)
  have "response_of d = None"
    using t by (simp add: response_of_def event_kind_def)
  moreover have "replay_event st i d
     = Inr (if num_gt (Num (of_int n)) (last_complete_round st)
            then st\<lparr>complete_rounds := insert (round_key n) (complete_rounds st),
                    last_complete_round := Num (of_int n), last_round_end_line_idx := i\<rparr>
            else st\<lparr>complete_rounds := insert (round_key n) (complete_rounds st)\<rparr>)"
    by (simp add: replay_event_def t record_round_end_def r key_of_def as_num_def py_gt_num_def
        round_key_def Let_def)
  ultimately show ?thesis using n that by blast
qed

lemma replay_event_response:
  assumes "event_ok d" "event_kind d ''agent_response''"
  obtains n a stance rationale where "response_of d = Some (n, a, stance, rationale)"
    "round_end_of d = None"
    "replay_event st i d
     = Inr (st\<lparr>round_responses := (round_responses st)
                (round_key n \<mapsto>
                   (case round_responses st (round_key n) of None \<Rightarrow> Map.empty | Some m \<Rightarrow> m)
                     (KStr a \<mapsto> (stance, rationale)))\<rparr>)"
proof -
  have t: "dict_get d ''type'' = Inr (JStr ''agent_response'')"
    using assms(2) by (simp add: event_kind_def)
  then have no_end: "\<not> event_kind d ''round_end''" by (simp add: event_kind_def)
  from assms obtain kvs where d: "d = JObj kvs" by (cases d) (simp_all add: event_ok_def)
  from assms d no_end obtain n a stance rationale
    where resp: "response_of d = Some (n, a, stance, rationale)"
    by (auto simp: event_ok_def)
  with assms(2) have g: "dict_get d ''round'' = Inr (JInt n)" "dict_get d ''agent_id'' = Inr (JStr a)"
    "dict_get d ''stance'' = Inr stance" "dict_get d ''rationale'' = Inr rationale"
    by (auto simp: response_of_def split: sum.splits json.splits)
  have "round_end_of d = None" using no_end by (simp add: round_end_of_def)
  moreover have "replay_event st i d
     = Inr (st\<lparr>round_responses := (round_responses st)
                (round_key n \<mapsto>
                   (case round_responses st (round_key n) of None \<Rightarrow> Map.empty | Some m \<Rightarrow> m)
                     (KStr a \<mapsto> (stance, rationale)))\<rparr>)"
    by (simp add: replay_event_def t record_response_def g key_of_def as_num_def round_key_def
        Let_def)
  ultimately show ?thesis using resp that by blast
qed

lemma Max_snoc:
  fixes n :: int
  shows "Max (set (ns @ [n])) = (if ns = [] then n else max n (Max (set ns)))"
  by (cases "ns = []") (simp_all add: Max_insert)

lemma replay_event_inv:
  assumes inv: "replay_inv evs st" and ok: "event_ok d"
  shows "\<exists>st'. replay_event st i d = Inr st' \<and> replay_inv (evs @ [d]) st'"
proof -
  consider (ending) "event_kind d ''round_end''"
    | (response) "event_kind d ''agent_response''"
    | (other) "\<not> event_kind d ''round_end''" "\<not> event_kind d ''agent_response''"
    by blast
  then show ?thesis
  proof cases
    case other
    from replay_event_other [OF ok other] inv show ?thesis
      by (simp add: replay_inv_def ended_rounds_snoc last_response_snoc_other)
  next
    case ending
    from replay_event_round_end [OF ok ending, of st i]
    obtain n where n: "round_end_of d = Some n" "0 \<le> n" "response_of d = None"
      and step: "replay_event st i d
        = Inr (if num_gt (Num (of_int n)) (last_complete_round st)
            then st\<lparr>complete_rounds := insert (round_key n) (complete_rounds st),
                    last_complete_round := Num (of_int n), last_round_end_line_idx := i\<rparr>
            else st\<lparr>complete_rounds := insert (round_key n) (complete_rounds st)\<rparr>)"
      by blast
    let ?ends = "ended_rounds evs"
    have last: "last_complete_round st = (if ?ends = [] then Num (- 1) else Num (of_int (Max (set ?ends))))"
      using inv by (simp add: replay_inv_def)
    have resp: "\<forall>r k. lookup2 (round_responses st) (round_key r) k = last_response (evs @ [d]) r k"
      using inv n by (simp add: replay_inv_def last_response_snoc_other)
    have ends': "ended_rounds (evs @ [d]) = ?ends @ [n]"
      using n by (simp add: ended_rounds_snoc)
    show ?thesis
    proof (cases "?ends = []")
      case True
      with last n have "num_gt (Num (of_int n)) (last_complete_round st)" by simp
      with step resp True ends' show ?thesis
        by (simp add: replay_inv_def)
    next
      case False
      define M where "M = Max (set ?ends)"
      from False last have l: "last_complete_round st = Num (of_int M)"
        by (simp add: M_def)
      have mx: "Max (set (ended_rounds (evs @ [d]))) = max n M"
        using False by (simp only: ends' Max_snoc M_def if_False)
      have ne: "ended_rounds (evs @ [d]) \<noteq> []" by (simp add: ends')
      have st': "replay_event st i d
        = Inr (if M < n
            then st\<lparr>complete_rounds := insert (round_key n) (complete_rounds st),
                    last_complete_round := Num (of_int n), last_round_end_line_idx := i\<rparr>
            else st\<lparr>complete_rounds := insert (round_key n) (complete_rounds st)\<rparr>)"
        by (simp only: step l num_gt.simps of_int_less_iff)
      show ?thesis
      proof (cases "M < n")
        case True
        then have "max n M = n" by simp
        with True st' resp ne mx show ?thesis
          by (simp add: replay_inv_def)
      next
        case notgt: False
        then have "max n M = M" by simp
        with notgt st' resp l ne mx show ?thesis
          by (simp add: replay_inv_def)
      qed
    qed
  next
    case response
    from replay_event_response [OF ok response, of st i]
    obtain n a stance rationale where r: "response_of d = Some (n, a, stance, rationale)"
      "round_end_of d = None"
      and step: "replay_event st i d
        = Inr (st\<lparr>round_responses := (round_responses st)
                (round_key n \<mapsto>
                   (case round_responses st (round_key n) of None \<Rightarrow> Map.empty | Some m \<Rightarrow> m)
                     (KStr a \<mapsto> (stance, rationale)))\<rparr>)"
      by blast
    let ?rr = "(round_responses st)
                (round_key n \<mapsto>
                   (case round_responses st (round_key n) of None \<Rightarrow> Map.empty | Some m \<Rightarrow> m)
                     (KStr a \<mapsto> (stance, rationale)))"
    have old: "lookup2 (round_responses st) (round_key r) k = last_response evs r k" for r k
      using inv by (simp add: replay_inv_def)
    have "lookup2 ?rr (round_key r) k = last_response (evs @ [d]) r k" for r k
    proof (cases "r = n \<and> k = KStr a")
      case True
      then show ?thesis
        using last_response_snoc_same [OF r(1), of evs] by (simp add: lookup2_def)
    next
      case False
      then have "lookup2 ?rr (round_key r) k = lookup2 (round_responses st) (round_key r) k"
        by (auto simp: lookup2_def split: option.splits)
      moreover have "last_response (evs @ [d]) r k = last_response evs r k"
        using False r by (auto simp: last_response_def responses_of_snoc split: pykey.splits)
      ultimately show ?thesis using old by simp
    qed
    with step inv r show ?thesis
      by (simp add: replay_inv_def ended_rounds_snoc)
  qed
qed

lemma decoded_Cons:
  "decoded loads (line # lines)
   = (if strip line = [] then []
      else (case loads (strip line) of Inl e \<Rightarrow> [] | Inr d \<Rightarrow> [d])) @ decoded loads lines"
  by (simp add: decoded_def map_filter_def split: sum.splits)

lemma replay_lines_inv:
  assumes "replay_inv evs st" "list_all (line_ok loads) lines"
  shows "\<exists>st'. replay_lines loads st i lines = Inr st' \<and> replay_inv (evs @ decoded loads lines) st'"
  using assms
proof (induction lines arbitrary: evs st i)
  case Nil
  then show ?case by (simp add: decoded_def map_filter_simps)
next
  case (Cons line lines)
  from Cons.prems have ok: "line_ok loads line" and rest: "list_all (line_ok loads) lines"
    by simp_all
  let ?d = "if strip line = [] then []
      else (case loads (strip line) of Inl e \<Rightarrow> [] | Inr d \<Rightarrow> [d])"
  have "\<exists>st'. replay_line loads st i line = Inr st' \<and> replay_inv (evs @ ?d) st'"
  proof (cases "strip line = []")
    case True
    with Cons.prems show ?thesis by (simp add: replay_line_def)
  next
    case False
    show ?thesis
    proof (cases "loads (strip line)")
      case (Inl e)
      with ok False have "e = JSONDecodeError" by (simp add: line_ok_def)
      with Inl False Cons.prems show ?thesis by (simp add: replay_line_def)
    next
      case (Inr d)
      with ok False have "event_ok d" by (simp add: line_ok_def)
      from replay_event_inv [OF Cons.prems(1) this, of i] Inr False
      show ?thesis by (simp add: replay_line_def)
    qed
  qed
  then obtain st' where st': "replay_line loads st i line = Inr st'" "replay_inv (evs @ ?d) st'"
    by blast
  from Cons.IH [OF st'(2) rest, of "i + 1"] st'(1)
  show ?case by (simp add: decoded_Cons)
qed

lemma Max_ended_nonneg:
  assumes "list_all (line_ok loads) lines" "ended_rounds (decoded loads lines) \<noteq> []"
  shows "0 \<le> Max (set (ended_rounds (decoded loads lines)))"
proof -
  have "0 \<le> n" if "n \<in> set (ended_rounds (decoded loads lines))" for n
  proof -
    from that obtain d where d: "d \<in> set (decoded loads lines)" "round_end_of d = Some n"
      by (auto simp: ended_rounds_def map_filter_def)
    then obtain line where l: "line \<in> set lines" "strip line \<noteq> []" "loads (strip line) = Inr d"
      by (auto simp: decoded_def map_filter_def split: sum.splits)
    with assms(1) have "event_ok d" by (auto simp: list_all_iff line_ok_def)
    with d(2) show ?thesis
      by (auto simp: event_ok_def round_end_of_def split: json.splits if_splits)
  qed
  moreover have "Max (set (ended_rounds (decoded loads lines))) \<in> set (ended_rounds (decoded loads lines))"
    using assms(2) by (intro Max_in) simp_all
  ultimately show ?thesis by blast
qed

text \<open>
  \<^bold>\<open>Claim C1\<close>: for every log of event lines (blank lines and lines that are not valid
  JSON among them are skipped), \<^verbatim>\<open>find_last_complete_round\<close> returns the highest round number
  for which the log holds a \<^verbatim>\<open>round_end\<close> event, together with, for each agent, the
  \<open>(stance, rationale)\<close> of the last \<^verbatim>\<open>agent_response\<close> event of that round and that agent in
  log order; and it returns none, with the empty map, when the log holds no \<^verbatim>\<open>round_end\<close>
  event.
\<close>

theorem find_last_complete_round_highest_ended:
  assumes "log_ok loads text"
  shows "find_last_complete_round loads (Readable text)
         = (let events = decoded loads (readlines text); ended = ended_rounds events
            in if ended = [] then (None, Map.empty)
               else (Some (Num (of_int (Max (set ended)))),
                     last_response events (Max (set ended))))"
proof -
  let ?evs = "decoded loads (readlines text)"
  let ?ended = "ended_rounds ?evs"
  from assms have ok: "list_all (line_ok loads) (readlines text)" by (simp add: log_ok_def)
  from replay_lines_inv [OF replay_inv_init ok, of 0]
  obtain st where st: "replay_lines loads replay_init 0 (readlines text) = Inr st"
    "replay_inv ?evs st" by auto
  show ?thesis
  proof (cases "?ended = []")
    case True
    with st show ?thesis by (simp add: find_last_complete_round_def replay_inv_def)
  next
    case False
    let ?m = "Max (set ?ended)"
    from st(2) False have last: "last_complete_round st = Num (of_int ?m)"
      by (simp add: replay_inv_def)
    have "0 \<le> ?m" by (rule Max_ended_nonneg [OF ok False])
    then have ne: "Num (of_int ?m) \<noteq> Num (- 1)" by simp
    have "(case round_responses st (round_key ?m) of None \<Rightarrow> Map.empty | Some m \<Rightarrow> m)
          = last_response ?evs ?m"
    proof
      fix k
      from st(2) have "lookup2 (round_responses st) (round_key ?m) k = last_response ?evs ?m k"
        by (simp add: replay_inv_def)
      then show "(case round_responses st (round_key ?m) of None \<Rightarrow> Map.empty | Some m \<Rightarrow> m) k
          = last_response ?evs ?m k"
        by (simp add: lookup2_def split: option.splits)
    qed
    with st(1) last ne False show ?thesis
      by (simp add: find_last_complete_round_def round_key_def Let_def)
  qed
qed

text \<open>
  The example log and claim C1: rounds \<open>0\<close> and \<open>1\<close> have ended and round \<open>2\<close> has not,
  so the last complete round is \<open>1\<close>; agent \<open>a1\<close> answered twice in round \<open>1\<close> and the
  later answer stands; no other agent has a state.
\<close>

theorem find_last_complete_round_highest_ended_witness:
  "log_ok example_loads (concat example_log)
   \<and> ended_rounds (decoded example_loads example_log) = [0, 1]
   \<and> fst (find_last_complete_round example_loads (Readable (concat example_log))) = Some (Num 1)
   \<and> snd (find_last_complete_round example_loads (Readable (concat example_log))) (KStr ''a1'')
       = Some (JStr ''DO_NOT_PULL'', JStr ''r3'')
   \<and> snd (find_last_complete_round example_loads (Readable (concat example_log))) (KStr ''a2'')
       = None"
proof -
  have ended: "ended_rounds (decoded example_loads example_log) = [0, 1]"
    by (simp add: example_decoded ended_rounds_def map_filter_def round_end_of_def event_kind_def
        dict_get_def response_event_def round_end_event_def)
  have a1: "responses_of (decoded example_loads example_log) 1 ''a1''
            = [(JStr ''PULL_LEVER'', JStr ''r2''), (JStr ''DO_NOT_PULL'', JStr ''r3'')]"
    by (simp add: example_decoded responses_of_def map_filter_def response_of_def event_kind_def
        dict_get_def response_event_def round_end_event_def)
  have a2: "responses_of (decoded example_loads example_log) 1 ''a2'' = []"
    by (simp add: example_decoded responses_of_def map_filter_def response_of_def event_kind_def
        dict_get_def response_event_def round_end_event_def)
  have m: "Max (set [0, 1 :: int]) = 1" by simp
  from find_last_complete_round_highest_ended [OF example_log_ok]
  have "find_last_complete_round example_loads (Readable (concat example_log))
        = (Some (Num 1), last_response (decoded example_loads example_log) 1)"
    by (simp add: example_readlines ended m Let_def)
  then show ?thesis
    using example_log_ok ended by (simp add: last_response_def a1 a2)
qed

subsection \<open>Truncating the log\<close>

lemma truncate_scan_takeWhile:
  "truncate_scan loads target acc lines
   = (let before = takeWhile (\<lambda>line. \<not> is_target_round_end loads target line) lines
      in if length before < length lines then (acc @ take (Suc (length before)) lines, True)
         else (acc @ lines, False))"
  by (induction lines arbitrary: acc) (simp_all add: Let_def)

lemma truncate_scan_index:
  "truncate_scan loads target [] lines
   = (case round_end_index loads target lines of
        None \<Rightarrow> (lines, False)
      | Some k \<Rightarrow> (take (Suc k) lines, True))"
  by (simp add: truncate_scan_takeWhile round_end_index_def Let_def)

lemma round_end_index_Some:
  assumes "round_end_index loads target lines = Some k"
  shows "k < length lines \<and> is_target_round_end loads target (lines ! k)
         \<and> (\<forall>j < k. \<not> is_target_round_end loads target (lines ! j))"
proof -
  let ?P = "\<lambda>line. \<not> is_target_round_end loads target line"
  from assms have k: "k = length (takeWhile ?P lines)" "k < length lines"
    by (simp_all add: round_end_index_def Let_def split: if_splits)
  then have "\<not> ?P (lines ! k)" using nth_length_takeWhile [of ?P lines] by blast
  moreover have "?P (lines ! j)" if "j < k" for j
  proof -
    from that k have "takeWhile ?P lines ! j = lines ! j" by (simp add: takeWhile_nth)
    moreover have "takeWhile ?P lines ! j \<in> set (takeWhile ?P lines)"
      using that k by simp
    ultimately show ?thesis by (metis set_takeWhileD)
  qed
  ultimately show ?thesis using k by simp
qed

lemma round_end_index_None:
  "(round_end_index loads target lines = None)
   = list_all (\<lambda>line. \<not> is_target_round_end loads target line) lines"
proof -
  let ?P = "\<lambda>line. \<not> is_target_round_end loads target line"
  have "length (takeWhile ?P lines) \<le> length lines" by (rule length_takeWhile_le)
  then have "(round_end_index loads target lines = None) = (length (takeWhile ?P lines) = length lines)"
    by (auto simp: round_end_index_def Let_def)
  also have "\<dots> = (takeWhile ?P lines = lines)"
    by (metis takeWhile_eq_take take_all_iff order_refl)
  also have "\<dots> = list_all ?P lines"
    by (simp add: takeWhile_eq_all_conv list_all_iff)
  finally show ?thesis .
qed

text \<open>
  \<^bold>\<open>Claim C2\<close>, as the specification states it: on any unexpected error
  \<^verbatim>\<open>truncate_log_to_round\<close> leaves the log untouched. The statement fails on the code: the
  file is rewritten in place, and \<^verbatim>\<open>open(path, 'w')\<close> empties it before the first line is
  written. When the write of the example log, truncated to round \<open>0\<close>, fails before a
  character reaches the file (a full disk), the function reports failure and the log is
  empty.
\<close>

theorem truncate_write_error_counterexample:
  "truncate_log_to_round example_loads (FailsAfter 0) (Readable (concat example_log)) 0
     = (False, Readable [])
   \<and> Readable [] \<noteq> Readable (concat example_log)"
  by (simp add: truncate_log_to_round_def example_readlines truncate_scan_index
      example_round_end_index_0 write_text_def)
    (simp add: example_log_def)

text \<open>
  \<^bold>\<open>Claim C2\<close>, amended: for every log file and target round, if the log contains a
  \<^verbatim>\<open>round_end\<close> event for the target round and the write succeeds,
  \<^verbatim>\<open>truncate_log_to_round\<close> rewrites the file to exactly the lines up to and including the
  first such event and reports success; if the log contains no such event, it reports
  failure and leaves the file unchanged; it also reports failure and leaves the file
  unchanged when the path does not exist, when the file cannot be read and when it cannot be
  opened for writing; and when an error interrupts the write itself it reports failure,
  the file holding the part of the truncated text written before the error.
\<close>

theorem truncate_log_to_round_cases:
  "truncate_log_to_round loads fault jsonl target
     = (case jsonl of
          Missing \<Rightarrow> (False, Missing)
        | Unreadable t \<Rightarrow> (False, Unreadable t)
        | Readable text \<Rightarrow>
            (case round_end_index loads target (readlines text) of
               None \<Rightarrow> (False, Readable text)
             | Some k \<Rightarrow>
                 (case fault of
                    NoFault \<Rightarrow> (True, Readable (concat (take (Suc k) (readlines text))))
                  | OpenFails \<Rightarrow> (False, Readable text)
                  | FailsAfter n \<Rightarrow>
                      (False, Readable (take n (concat (take (Suc k) (readlines text))))))))
   \<and> (\<forall>k. round_end_index loads target lines = Some k \<longrightarrow>
          k < length lines \<and> is_target_round_end loads target (lines ! k)
          \<and> (\<forall>j < k. \<not> is_target_round_end loads target (lines ! j)))
   \<and> ((round_end_index loads target lines = None)
        = list_all (\<lambda>line. \<not> is_target_round_end loads target line) lines)"
proof (intro conjI allI impI)
  show "truncate_log_to_round loads fault jsonl target
     = (case jsonl of
          Missing \<Rightarrow> (False, Missing)
        | Unreadable t \<Rightarrow> (False, Unreadable t)
        | Readable text \<Rightarrow>
            (case round_end_index loads target (readlines text) of
               None \<Rightarrow> (False, Readable text)
             | Some k \<Rightarrow>
                 (case fault of
                    NoFault \<Rightarrow> (True, Readable (concat (take (Suc k) (readlines text))))
                  | OpenFails \<Rightarrow> (False, Readable text)
                  | FailsAfter n \<Rightarrow>
                      (False, Readable (take n (concat (take (Suc k) (readlines text))))))))"
    by (simp add: truncate_log_to_round_def truncate_scan_index write_text_def
        split: text_file.splits option.splits write_fault.splits)
next
  fix k assume "round_end_index loads target lines = Some k"
  from round_end_index_Some [OF this]
  show "k < length lines" "is_target_round_end loads target (lines ! k)"
    "\<And>j. j < k \<Longrightarrow> \<not> is_target_round_end loads target (lines ! j)"
    by simp_all
next
  show "(round_end_index loads target lines = None)
        = list_all (\<lambda>line. \<not> is_target_round_end loads target line) lines"
    by (rule round_end_index_None)
qed

text \<open>
  The example log and claim C2: truncated to round \<open>1\<close> it keeps its first five lines, the
  fifth being the \<^verbatim>\<open>round_end\<close> event of round \<open>1\<close>; it has no \<^verbatim>\<open>round_end\<close> event for round
  \<open>2\<close>, and the file is then left as it is; and so it is when it cannot be opened.
\<close>

theorem truncate_log_to_round_cases_witness:
  "truncate_log_to_round example_loads NoFault (Readable (concat example_log)) 1
     = (True, Readable (concat (take 5 example_log)))
   \<and> is_target_round_end example_loads 1 (example_log ! 4)
   \<and> truncate_log_to_round example_loads NoFault (Readable (concat example_log)) 2
     = (False, Readable (concat example_log))
   \<and> truncate_log_to_round example_loads OpenFails (Readable (concat example_log)) 1
     = (False, Readable (concat example_log))
   \<and> truncate_log_to_round example_loads NoFault Missing 1 = (False, Missing)"
proof -
  from truncate_log_to_round_cases
         [of example_loads NoFault "Readable (concat example_log)" 1 example_log]
  have one: "truncate_log_to_round example_loads NoFault (Readable (concat example_log)) 1
       = (True, Readable (concat (take 5 example_log)))"
    and hit: "is_target_round_end example_loads 1 (example_log ! 4)"
    by (simp_all add: example_readlines example_round_end_index_1)
  from truncate_log_to_round_cases
         [of example_loads NoFault "Readable (concat example_log)" 2 example_log]
  have two: "truncate_log_to_round example_loads NoFault (Readable (concat example_log)) 2
       = (False, Readable (concat example_log))"
    by (simp add: example_readlines example_round_end_index_2)
  from truncate_log_to_round_cases
         [of example_loads OpenFails "Readable (concat example_log)" 1 example_log]
  have three: "truncate_log_to_round example_loads OpenFails (Readable (concat example_log)) 1
       = (False, Readable (concat example_log))"
    by (simp add: example_readlines example_round_end_index_1)
  from truncate_log_to_round_cases [of example_loads NoFault Missing 1 example_log]
  have four: "truncate_log_to_round example_loads NoFault Missing 1 = (False, Missing)"
    by simp
  from one hit two three four show ?thesis by simp
qed

section \<open>Proofs: the peer sample\<close>

lemma picked_positions:
  assumes "distinct js" "\<forall>j \<in> set js. j < length xs"
  shows "set (map (\<lambda>j. xs ! j) js) \<subseteq> set xs"
    and "length js = length xs \<Longrightarrow> set (map (\<lambda>j. xs ! j) js) = set xs"
proof -
  show sub: "set (map (\<lambda>j. xs ! j) js) \<subseteq> set xs"
    using assms(2) by auto
  show "set (map (\<lambda>j. xs ! j) js) = set xs" if len: "length js = length xs"
  proof -
    have "set js \<subseteq> {..< length xs}" using assms(2) by auto
    moreover have "card (set js) = length xs"
      using assms(1) len by (simp add: distinct_card)
    ultimately have "set js = {..< length xs}"
      by (intro card_subset_eq) simp_all
    then have "(\<lambda>j. xs ! j) ` set js = set xs"
      by (auto simp: set_conv_nth)
    then show ?thesis by simp
  qed
qed

lemma length_peers:
  assumes "length (filter (\<lambda>a. agent_id a = c) agents) = 1"
  shows "length (filter (\<lambda>a. agent_id a \<noteq> c) agents) = length agents - 1"
proof -
  have "length (filter (\<lambda>a. agent_id a = c) agents)
        + length (filter (\<lambda>a. \<not> agent_id a = c) agents) = length agents"
    by (rule sum_length_filter_compl)
  with assms show ?thesis by simp
qed

lemma peer_id_peer_state [simp]: "peer_id (peer_state p) = agent_id p"
  by (simp add: peer_state_def)

lemma nat_min_int: "0 \<le> k \<Longrightarrow> nat (min k (int n)) = min (nat k) n"
  by (simp add: min_def) linarith

lemma sample_peers_seeded_parts:
  assumes gen: "samples_without_replacement (seeded seed)"
    and once: "length (filter (\<lambda>a. agent_id a = c) agents) = 1"
    and k: "0 \<le> k"
  shows "\<exists>js. sample_peers seeded shared agents c k (Some seed)
                = Inr (map peer_state
                        (sort_key agent_id
                           (map (\<lambda>j. filter (\<lambda>a. agent_id a \<noteq> c) agents ! j) js)))
            \<and> distinct js
            \<and> (\<forall>j \<in> set js. j < length (filter (\<lambda>a. agent_id a \<noteq> c) agents))
            \<and> length js = min (nat k) (length agents - 1)"
    and "sample_peers seeded shared agents c k (Some seed)
         = sample_peers seeded shared' agents c k (Some seed)"
    and "\<forall>out. sample_peers seeded shared agents c k (Some seed) = Inr out \<longrightarrow>
           c \<notin> set (map peer_id out)
           \<and> length out = min (nat k) (length agents - 1)
           \<and> set out \<subseteq> peer_state ` {a \<in> set agents. agent_id a \<noteq> c}
           \<and> sorted (map peer_id out)
           \<and> (int (length agents) - 1 \<le> k \<longrightarrow>
                set out = peer_state ` {a \<in> set agents. agent_id a \<noteq> c})"
proof -
  let ?peers = "filter (\<lambda>a. agent_id a \<noteq> c) agents"
  let ?n = "length ?peers"
  let ?size = "min k (int ?n)"
  let ?js = "seeded seed ?n (nat ?size)"
  have n: "?n = length agents - 1" by (rule length_peers [OF once])
  have size: "nat ?size \<le> ?n" "nat ?size = min (nat k) (length agents - 1)"
    using k n by (simp_all add: nat_min_int)
  from gen size(1) have js: "distinct ?js" "length ?js = nat ?size" "\<forall>j \<in> set ?js. j < ?n"
    by (simp_all add: samples_without_replacement_def)
  have run: "sample_peers seeded shared agents c k (Some seed)
             = Inr (map peer_state (sort_key agent_id (map (\<lambda>j. ?peers ! j) ?js)))" for shared
    using k by (simp add: sample_peers_def py_sample_def Let_def or_raise_def min_def)
  show "\<exists>js. sample_peers seeded shared agents c k (Some seed)
                = Inr (map peer_state (sort_key agent_id (map (\<lambda>j. ?peers ! j) js)))
            \<and> distinct js \<and> (\<forall>j \<in> set js. j < ?n)
            \<and> length js = min (nat k) (length agents - 1)"
    using run js size(2) by (intro exI [of _ ?js]) simp
  show "sample_peers seeded shared agents c k (Some seed)
         = sample_peers seeded shared' agents c k (Some seed)"
    by (simp add: run)
  let ?sampled = "map (\<lambda>j. ?peers ! j) ?js"
  let ?out = "map peer_state (sort_key agent_id ?sampled)"
  have sub: "set ?sampled \<subseteq> set ?peers"
    by (rule picked_positions(1) [OF js(1) js(3)])
  have "c \<notin> set (map peer_id ?out)"
    using sub by (auto simp: comp_def)
  moreover have "length ?out = min (nat k) (length agents - 1)"
    using js(2) size(2) by simp
  moreover have sub': "set ?out \<subseteq> peer_state ` {a \<in> set agents. agent_id a \<noteq> c}"
    using sub by auto
  moreover have "sorted (map peer_id ?out)"
    by (simp add: comp_def sorted_sort_key)
  moreover have "set ?out = peer_state ` {a \<in> set agents. agent_id a \<noteq> c}"
    if "int (length agents) - 1 \<le> k"
  proof -
    from that n k have "nat ?size = ?n" by (simp add: nat_min_int)
    with js(2) have "length ?js = ?n" by simp
    from picked_positions(2) [OF js(1) js(3) this]
    have "set ?sampled = set ?peers" .
    then show ?thesis by auto
  qed
  ultimately show "\<forall>out. sample_peers seeded shared agents c k (Some seed) = Inr out \<longrightarrow>
           c \<notin> set (map peer_id out)
           \<and> length out = min (nat k) (length agents - 1)
           \<and> set out \<subseteq> peer_state ` {a \<in> set agents. agent_id a \<noteq> c}
           \<and> sorted (map peer_id out)
           \<and> (int (length agents) - 1 \<le> k \<longrightarrow>
                set out = peer_state ` {a \<in> set agents. agent_id a \<noteq> c})"
    unfolding run by blast
qed

text \<open>
  \<^bold>\<open>Claim C5\<close>: for every agent population that holds the invoking agent once, every
  sample size \<open>k \<ge> 0\<close> and every seed, \<^verbatim>\<open>sample_peers\<close> returns a result that is the same on
  every invocation (it does not depend on the process-wide generator, the only state
  that differs between invocations); the result never contains the invoking agent, has
  size \<open>min(k, population size - 1)\<close>, consists of agents at different positions of the rest
  of the population (a draw without replacement), and is sorted by agent id; with
  \<open>k \<ge> population size - 1\<close> it holds every other agent. The seeded generator is assumed
  to meet the contract of \<^verbatim>\<open>random.sample\<close>.
\<close>

theorem sample_peers_seeded:
  assumes "samples_without_replacement (seeded seed)"
    and "length (filter (\<lambda>a. agent_id a = c) agents) = 1"
    and "0 \<le> k"
  shows "(\<exists>js. sample_peers seeded shared agents c k (Some seed)
                = Inr (map peer_state
                        (sort_key agent_id
                           (map (\<lambda>j. filter (\<lambda>a. agent_id a \<noteq> c) agents ! j) js)))
            \<and> distinct js
            \<and> (\<forall>j \<in> set js. j < length (filter (\<lambda>a. agent_id a \<noteq> c) agents))
            \<and> length js = min (nat k) (length agents - 1))
       \<and> sample_peers seeded shared agents c k (Some seed)
           = sample_peers seeded shared' agents c k (Some seed)
       \<and> (\<forall>out. sample_peers seeded shared agents c k (Some seed) = Inr out \<longrightarrow>
             c \<notin> set (map peer_id out)
             \<and> length out = min (nat k) (length agents - 1)
             \<and> set out \<subseteq> peer_state ` {a \<in> set agents. agent_id a \<noteq> c}
             \<and> sorted (map peer_id out)
             \<and> (int (length agents) - 1 \<le> k \<longrightarrow>
                  set out = peer_state ` {a \<in> set agents. agent_id a \<noteq> c}))"
proof -
  note p1 = sample_peers_seeded_parts(1)
    [where seeded = seeded and seed = seed and c = c and agents = agents and k = k
       and shared = shared]
  note p2 = sample_peers_seeded_parts(2)
    [where seeded = seeded and seed = seed and c = c and agents = agents and k = k
       and shared = shared and shared' = shared']
  note p3 = sample_peers_seeded_parts(3)
    [where seeded = seeded and seed = seed and c = c and agents = agents and k = k
       and shared = shared]
  from p1 [OF assms] p2 [OF assms] p3 [OF assms]
  show ?thesis by (intro conjI)
qed

lemma example_rng_samples: "samples_without_replacement (example_rng seed)"
  unfolding samples_without_replacement_def example_rng_def
proof (intro allI impI conjI ballI)
  fix n k :: nat
  assume "k \<le> n"
  show "distinct (take k (rotate (nat seed) [0 ..< n]))"
    by (simp add: distinct_take)
  show "length (take k (rotate (nat seed) [0 ..< n])) = k"
    using \<open>k \<le> n\<close> by simp
  fix j assume "j \<in> set (take k (rotate (nat seed) [0 ..< n]))"
  then have "j \<in> set (rotate (nat seed) [0 ..< n])" by (rule in_set_takeD)
  then show "j < n" by simp
qed

text \<open>
  Agent \<open>a2\<close> of the example population asks for two peers with seed \<open>2\<close>: the generator
  picks \<open>a4\<close>, then \<open>a1\<close>, and the result is \<open>a1, a4\<close>, whatever the process-wide
  generator is; asked for five peers, it gets all three other agents.
\<close>

theorem sample_peers_seeded_witness:
  "samples_without_replacement (example_rng 2)
   \<and> length (filter (\<lambda>a. agent_id a = ''a2'') example_agents) = 1
   \<and> sample_peers example_rng (example_rng 0) example_agents ''a2'' 2 (Some 2)
       = Inr [peer_state (example_agent ''a1'' (Some PULL_LEVER)),
              peer_state (example_agent ''a4'' (Some PULL_LEVER))]
   \<and> sample_peers example_rng (example_rng 0) example_agents ''a2'' 2 (Some 2)
       = sample_peers example_rng (example_rng 1) example_agents ''a2'' 2 (Some 2)
   \<and> sample_peers example_rng (example_rng 0) example_agents ''a2'' 5 (Some 2)
       = Inr [peer_state (example_agent ''a1'' (Some PULL_LEVER)),
              peer_state (example_agent ''a3'' None),
              peer_state (example_agent ''a4'' (Some PULL_LEVER))]"
proof -
  have once: "length (filter (\<lambda>a. agent_id a = ''a2'') example_agents) = 1"
    by (simp add: example_agents_def example_agent_def)
  have k: "(0::int) \<le> 2" by simp
  have picks: "example_rng 2 (Suc (Suc (Suc 0))) 2 = [2, 0]"
    "example_rng 2 (Suc (Suc (Suc 0))) 3 = [2, 0, 1]"
    by (simp_all add: example_rng_def eval_nat_numeral rotate1_def upt_conv_Cons)
  have peers: "filter (\<lambda>a. agent_id a \<noteq> ''a2'') example_agents
               = [example_agent ''a1'' (Some PULL_LEVER), example_agent ''a3'' None,
                  example_agent ''a4'' (Some PULL_LEVER)]"
    by (simp add: example_agents_def example_agent_def)
  have ids: "agent_id (example_agent i s) = i" for i s
    by (simp add: example_agent_def)
  have two: "sample_peers example_rng (example_rng 0) example_agents ''a2'' 2 (Some 2)
       = Inr [peer_state (example_agent ''a1'' (Some PULL_LEVER)),
              peer_state (example_agent ''a4'' (Some PULL_LEVER))]"
    unfolding sample_peers_def py_sample_def peers Let_def
    by (simp add: picks ids or_raise_def)
  have five: "sample_peers example_rng (example_rng 0) example_agents ''a2'' 5 (Some 2)
       = Inr [peer_state (example_agent ''a1'' (Some PULL_LEVER)),
              peer_state (example_agent ''a3'' None),
              peer_state (example_agent ''a4'' (Some PULL_LEVER))]"
    unfolding sample_peers_def py_sample_def peers Let_def
    by (simp add: picks ids or_raise_def)
  note claim = sample_peers_seeded
         [where seeded = example_rng and seed = 2 and shared = "example_rng 0"
            and shared' = "example_rng 1", OF example_rng_samples once k]
  have same: "sample_peers example_rng (example_rng 0) example_agents ''a2'' 2 (Some 2)
       = sample_peers example_rng (example_rng 1) example_agents ''a2'' 2 (Some 2)"
    by (rule conjunct1 [OF conjunct2 [OF claim]])
  show ?thesis
    apply (intro conjI)
        apply (rule example_rng_samples)
       apply (rule once)
      apply (rule two)
     apply (rule same)
    apply (rule five)
    done
qed

section \<open>Proofs: the model invoker\<close>

lemma try_patterns_first_decodable:
  "try_patterns loads matches
   = first_decodable loads (map strip (List.map_filter (\<lambda>m. m) matches))"
proof (induction loads matches rule: try_patterns.induct)
  case (1 loads)
  then show ?case by (simp add: first_decodable_def map_filter_simps)
next
  case (2 loads matches)
  then show ?case by (simp add: map_filter_simps)
next
  case (3 loads json_str matches)
  show ?case
  proof (cases "loads (strip json_str)")
    case (Inr v)
    then show ?thesis by (simp add: first_decodable_def map_filter_simps)
  next
    case (Inl e)
    with 3 show ?thesis by (simp add: first_decodable_def map_filter_simps)
  qed
qed

lemma parse_json_response_candidates:
  "parse_json_response loads text
   = (if text = [] then Inr JNull else first_decodable loads (extraction_candidates text))"
proof (cases "text = []")
  case True
  then show ?thesis by (simp add: parse_json_response_def)
next
  case False
  show ?thesis
  proof (cases "loads (strip text)")
    case (Inr v)
    with False show ?thesis
      by (simp add: parse_json_response_def extraction_candidates_def first_decodable_def)
  next
    case (Inl e)
    with False show ?thesis
      by (simp add: parse_json_response_def extraction_candidates_def
          try_patterns_first_decodable)
        (simp add: first_decodable_def)
  qed
qed

lemma find_sub_le:
  "find_sub pat s = Some i \<Longrightarrow> i + length pat \<le> length s"
proof (induction s arbitrary: i)
  case Nil
  then show ?case by (simp split: if_splits)
next
  case (Cons c cs)
  show ?case
  proof (cases "take (length pat) (c # cs) = pat")
    case True
    with Cons.prems have "i = 0" by simp
    moreover have "length (take (length pat) (c # cs)) = length pat"
      using True by simp
    then have "length pat \<le> length (c # cs)"
      by (simp add: min_def split: if_splits)
    ultimately show ?thesis by simp
  next
    case False
    with Cons.prems obtain j where j: "find_sub pat cs = Some j" "i = Suc j" by auto
    from Cons.IH [OF j(1)] j(2) show ?thesis by simp
  qed
qed

lemma find_sub_at:
  "find_sub pat s = Some i \<Longrightarrow> take (length pat) (drop i s) = pat"
proof (induction s arbitrary: i)
  case Nil
  then show ?case by (simp split: if_splits)
next
  case (Cons c cs)
  show ?case
  proof (cases "take (length pat) (c # cs) = pat")
    case True
    with Cons.prems have "i = 0" by simp
    with True show ?thesis by simp
  next
    case False
    with Cons.prems obtain j where j: "find_sub pat cs = Some j" "i = Suc j" by auto
    from Cons.IH [OF j(1)] j(2) show ?thesis by simp
  qed
qed

lemma find_sub_Some:
  assumes "find_sub pat s = Some i"
  shows "s = take i s @ pat @ drop (i + length pat) s"
proof -
  have "drop i s = take (length pat) (drop i s) @ drop (length pat) (drop i s)"
    by (simp only: append_take_drop_id)
  also have "take (length pat) (drop i s) = pat" by (rule find_sub_at [OF assms])
  also have "drop (length pat) (drop i s) = drop (i + length pat) s"
    by (simp add: add.commute)
  finally have "drop i s = pat @ drop (i + length pat) s" .
  moreover have "s = take i s @ drop i s" by simp
  ultimately show ?thesis by simp
qed

lemma search_fenced_Some:
  assumes "search_fenced opening text = Some g"
  shows "\<exists>before inside after.
           text = before @ opening @ inside @ ''```'' @ after
           \<and> find_sub opening text = Some (length before)
           \<and> find_sub ''```'' (inside @ ''```'' @ after) = Some (length inside)
           \<and> g = strip inside"
proof -
  from assms obtain i where i: "find_sub opening text = Some i"
    by (auto simp: search_fenced_def split: option.splits)
  define rest where "rest = drop (i + length opening) text"
  from assms i obtain q where q: "find_sub ''```'' rest = Some q" "g = strip (take q rest)"
    by (auto simp: search_fenced_def Let_def rest_def split: option.splits)
  define before where "before = take i text"
  define inside where "inside = take q rest"
  define after where "after = drop (q + length ''```'') rest"
  have t: "text = before @ opening @ rest"
    unfolding before_def rest_def by (rule find_sub_Some [OF i])
  have r: "rest = inside @ ''```'' @ after"
    unfolding inside_def after_def by (rule find_sub_Some [OF q(1)])
  have li: "length before = i"
    using find_sub_le [OF i] by (simp add: before_def)
  have lq: "length inside = q"
    using find_sub_le [OF q(1)] by (simp add: inside_def)
  have "text = before @ opening @ inside @ ''```'' @ after"
    using t r by simp
  moreover have "find_sub opening text = Some (length before)"
    using i li by simp
  moreover have "find_sub ''```'' (inside @ ''```'' @ after) = Some (length inside)"
    using q(1) lq r by simp
  moreover have "g = strip inside" using q(2) by (simp add: inside_def)
  ultimately show ?thesis by blast
qed

lemma search_braces_Some:
  assumes "search_braces text = Some s"
  shows "\<exists>before after.
           text = before @ s @ after
           \<and> CHR ''{'' \<notin> set before \<and> CHR ''}'' \<notin> set after
           \<and> hd s = CHR ''{'' \<and> last s = CHR ''}'' \<and> 2 \<le> length s"
proof -
  let ?open = "\<lambda>c. c \<noteq> CHR ''{''" and ?close = "\<lambda>c. c \<noteq> CHR ''}''"
  define i where "i = length (takeWhile ?open text)"
  define k where "k = length (takeWhile ?close (rev text))"
  define n where "n = length text"
  from assms have "i < n \<and> k < n \<and> i < n - 1 - k \<and> s = take (n - k - i) (drop i text)"
    unfolding search_braces_def Let_def i_def [symmetric] k_def [symmetric] n_def [symmetric]
    by (simp split: if_splits)
  then have b: "i < n" "k < n" "i < n - 1 - k"
    and s: "s = take (n - k - i) (drop i text)"
    by simp_all
  define before where "before = take i text"
  define after where "after = drop (n - k) text"
  have "drop (n - k - i) (drop i text) = drop (n - k) text"
  proof -
    have "n - k - i + i = n - k" using b by simp
    then show ?thesis by (simp only: drop_drop)
  qed
  then have "take (n - k - i) (drop i text) @ drop (n - k) text = drop i text"
    by (metis append_take_drop_id)
  then have "drop i text = s @ after" by (simp add: s after_def)
  then have split: "text = before @ s @ after"
    unfolding before_def by (metis append_take_drop_id)
  have "before = takeWhile ?open text"
    unfolding before_def i_def by (rule takeWhile_eq_take [symmetric])
  then have nob: "CHR ''{'' \<notin> set before"
    using set_takeWhileD [of "CHR ''{''" "?open" "text"] by auto
  have "rev after = take k (rev text)"
    using b by (simp add: after_def rev_drop n_def)
  also have "\<dots> = takeWhile ?close (rev text)"
    unfolding k_def by (rule takeWhile_eq_take [symmetric])
  finally have "rev after = takeWhile ?close (rev text)" .
  then have "CHR ''}'' \<notin> set (rev after)"
    using set_takeWhileD [of "CHR ''}''" "?close" "rev text"] by auto
  then have noa: "CHR ''}'' \<notin> set after" by simp
  have len: "length s = n - k - i" using b s by (simp add: n_def)
  then have two: "2 \<le> length s" using b by simp
  then have ne: "s \<noteq> []" by auto
  have "s ! 0 = text ! i"
    using b len by (simp add: s n_def)
  then have "hd s = text ! i" using ne by (simp add: hd_conv_nth)
  moreover have "\<not> ?open (text ! i)"
    unfolding i_def by (rule nth_length_takeWhile) (use b in \<open>simp add: i_def n_def\<close>)
  ultimately have h: "hd s = CHR ''{''" by simp
  have "s ! (length s - 1) = text ! (i + (n - k - i - 1))"
    using b len by (simp add: s n_def)
  moreover have "i + (n - k - i - 1) = n - 1 - k" using b by simp
  ultimately have "last s = text ! (n - 1 - k)" using ne by (simp add: last_conv_nth)
  also have "\<dots> = rev text ! k"
  proof -
    have "rev text ! k = text ! (length text - Suc k)"
      using b by (simp add: rev_nth n_def)
    then show ?thesis by (simp add: n_def)
  qed
  finally have "last s = rev text ! k" .
  moreover have "\<not> ?close (rev text ! k)"
    unfolding k_def by (rule nth_length_takeWhile) (use b in \<open>simp add: k_def n_def\<close>)
  ultimately have l: "last s = CHR ''}''" by simp
  from split nob noa h l two show ?thesis by blast
qed

lemma find_sub_first:
  "s = b @ pat @ a \<Longrightarrow> \<exists>i \<le> length b. find_sub pat s = Some i"
proof (induction s arbitrary: b)
  case Nil
  then show ?case by simp
next
  case (Cons c cs)
  show ?case
  proof (cases "take (length pat) (c # cs) = pat")
    case True
    then show ?thesis by simp
  next
    case False
    have "b \<noteq> []"
    proof
      assume "b = []"
      with Cons.prems have "c # cs = pat @ a" by simp
      then have "take (length pat) (c # cs) = pat" by simp
      with False show False by contradiction
    qed
    then obtain b' where b: "b = c # b'" and cs: "cs = b' @ pat @ a"
      using Cons.prems by (cases b) simp_all
    from Cons.IH [OF cs] obtain i where "i \<le> length b'" "find_sub pat cs = Some i" by blast
    with False b show ?thesis by simp
  qed
qed

lemma search_fenced_complete:
  assumes "text = before @ opening @ inside @ ''```'' @ after"
  shows "search_fenced opening text \<noteq> None"
proof -
  from find_sub_first [OF assms] obtain i
    where i: "i \<le> length before" "find_sub opening text = Some i" by blast
  define n where "n = i + length opening"
  have "text = (before @ opening @ inside) @ ''```'' @ after" using assms by simp
  moreover have "n \<le> length (before @ opening @ inside)" using i(1) by (simp add: n_def)
  ultimately have "drop n text = drop n (before @ opening @ inside) @ ''```'' @ after"
    by simp
  from find_sub_first [OF this] obtain q where "find_sub ''```'' (drop n text) = Some q"
    by blast
  with i(2) show ?thesis by (simp add: search_fenced_def Let_def n_def)
qed

lemma search_fenced_None:
  "(search_fenced opening text = None)
   = (\<not> (\<exists>before inside after. text = before @ opening @ inside @ ''```'' @ after))"
proof
  assume "search_fenced opening text = None"
  with search_fenced_complete
  show "\<not> (\<exists>before inside after. text = before @ opening @ inside @ ''```'' @ after)"
    by blast
next
  assume none: "\<not> (\<exists>before inside after. text = before @ opening @ inside @ ''```'' @ after)"
  show "search_fenced opening text = None"
  proof (cases "search_fenced opening text")
    case None
    then show ?thesis .
  next
    case (Some g)
    from search_fenced_Some [OF this] none show ?thesis by blast
  qed
qed

lemma length_takeWhile_stop:
  "\<not> P x \<Longrightarrow> length (takeWhile P (xs @ x # ys)) \<le> length xs"
  by (induction xs) simp_all

lemma search_braces_complete:
  assumes "text = before @ CHR ''{'' # inside @ CHR ''}'' # after"
  shows "search_braces text \<noteq> None"
proof -
  let ?open = "\<lambda>c. c \<noteq> CHR ''{''" and ?close = "\<lambda>c. c \<noteq> CHR ''}''"
  define i where "i = length (takeWhile ?open text)"
  define k where "k = length (takeWhile ?close (rev text))"
  have i: "i \<le> length before"
    unfolding i_def assms by (rule length_takeWhile_stop) simp
  have "rev text = rev after @ CHR ''}'' # (rev inside @ CHR ''{'' # rev before)"
    using assms by simp
  then have "k \<le> length (rev after)"
    unfolding k_def by (simp only: length_takeWhile_stop)
  then have k: "k \<le> length after" by simp
  have n: "length text = length before + length inside + length after + 2"
    using assms by simp
  from i k n have "i < length text \<and> k < length text \<and> i < length text - 1 - k"
    by simp
  then show ?thesis
    unfolding search_braces_def Let_def i_def [symmetric] k_def [symmetric] by simp
qed

lemma search_braces_None:
  "(search_braces text = None)
   = (\<not> (\<exists>before inside after. text = before @ CHR ''{'' # inside @ CHR ''}'' # after))"
proof
  assume "search_braces text = None"
  with search_braces_complete [of "text"]
  show "\<not> (\<exists>before inside after. text = before @ CHR ''{'' # inside @ CHR ''}'' # after)"
    by blast
next
  assume none: "\<not> (\<exists>before inside after. text = before @ CHR ''{'' # inside @ CHR ''}'' # after)"
  show "search_braces text = None"
  proof (cases "search_braces text")
    case None
    then show ?thesis .
  next
    case (Some s)
    from search_braces_Some [OF this] obtain before after
      where t: "text = before @ s @ after"
        and s: "hd s = CHR ''{''" "last s = CHR ''}''" "2 \<le> length s"
      by blast
    from s(3) obtain c s' where c: "s = c # s'" by (cases s) auto
    with s(3) have "s' \<noteq> []" by auto
    then obtain inside d where d: "s' = inside @ [d]" by (metis rev_exhaust)
    from s c d have "s = CHR ''{'' # inside @ [CHR ''}'']" by simp
    with t have "text = before @ CHR ''{'' # inside @ CHR ''}'' # after" by simp
    with none show ?thesis by blast
  qed
qed

lemma attempt_outcome_parsed:
  "post payload a = Inr raw \<Longrightarrow> parse_json_response loads raw = Inr p
   \<Longrightarrow> attempt_outcome loads str_exn post payload a = Inr (raw, p)"
  by (simp add: attempt_outcome_def)

lemma attempt_outcome_raised:
  "post payload a = Inr raw \<Longrightarrow> parse_json_response loads raw = Inl e
   \<Longrightarrow> attempt_outcome loads str_exn post payload a = Inl (CaughtException (str_exn e))"
  by (simp add: attempt_outcome_def)

lemma attempt_outcome_failed:
  "post payload a = Inl failure \<Longrightarrow> attempt_outcome loads str_exn post payload a = Inl failure"
  by (simp add: attempt_outcome_def)

lemma failing_trace_Cons:
  "failing_trace fmul self (a # as)
   = Posted a # (if int a < max_retries self - 1
                 then [Slept (fmul (retry_delay self) (int a + 1))] else [])
     @ failing_trace fmul self as"
  by (simp add: failing_trace_def)

lemma generate_loop_failing:
  assumes "\<forall>a \<in> set as. attempt_outcome loads str_exn post payload a = Inl (failures a)"
    and "\<forall>a \<in> set as. int a < max_retries self - 1
           \<longrightarrow> sleep (fmul (retry_delay self) (int a + 1)) = None"
  shows "generate_loop loads str_exn fmul sleep post self payload last_error effects as
         = Inr (Failed (if as = [] then last_error
                        else Some (describe_failure self (failures (last as))))
                  (model self) (max_retries self),
                effects @ failing_trace fmul self as)"
  using assms
proof (induction as arbitrary: last_error effects)
  case Nil
  then show ?case by (simp add: failing_trace_def)
next
  case (Cons a as)
  from Cons.prems have a: "attempt_outcome loads str_exn post payload a = Inl (failures a)"
    and rest: "\<forall>b \<in> set as. attempt_outcome loads str_exn post payload b = Inl (failures b)"
    and sa: "int a < max_retries self - 1
             \<Longrightarrow> sleep (fmul (retry_delay self) (int a + 1)) = None"
    and srest: "\<forall>b \<in> set as. int b < max_retries self - 1
           \<longrightarrow> sleep (fmul (retry_delay self) (int b + 1)) = None"
    by simp_all
  show ?case
  proof (cases "int a < max_retries self - 1")
    case True
    with sa a show ?thesis
      by (simp add: Cons.IH [OF rest srest] failing_trace_Cons)
  next
    case False
    with a show ?thesis
      by (simp add: Cons.IH [OF rest srest] failing_trace_Cons)
  qed
qed

lemma generate_loop_answer:
  assumes "\<forall>b \<in> set before. attempt_outcome loads str_exn post payload b = Inl (failures b)"
    and "\<forall>b \<in> set before. int b < max_retries self - 1
           \<longrightarrow> sleep (fmul (retry_delay self) (int b + 1)) = None"
    and "attempt_outcome loads str_exn post payload a = Inr (raw, p)"
  shows "generate_loop loads str_exn fmul sleep post self payload last_error effects
           (before @ a # later)
         = Inr (Answered raw p (p \<noteq> JNull) (model self) (int a + 1),
                effects @ failing_trace fmul self before @ [Posted a])"
  using assms(1,2)
proof (induction before arbitrary: last_error effects)
  case Nil
  then show ?case by (simp add: assms(3) failing_trace_def)
next
  case (Cons b before)
  from Cons.prems have b: "attempt_outcome loads str_exn post payload b = Inl (failures b)"
    and rest: "\<forall>c \<in> set before. attempt_outcome loads str_exn post payload c = Inl (failures c)"
    and sb: "int b < max_retries self - 1
             \<Longrightarrow> sleep (fmul (retry_delay self) (int b + 1)) = None"
    and srest: "\<forall>c \<in> set before. int c < max_retries self - 1
           \<longrightarrow> sleep (fmul (retry_delay self) (int c + 1)) = None"
    by simp_all
  show ?case
  proof (cases "int b < max_retries self - 1")
    case True
    with sb b show ?thesis
      by (simp add: Cons.IH [OF rest srest] failing_trace_Cons)
  next
    case False
    with b show ?thesis
      by (simp add: Cons.IH [OF rest srest] failing_trace_Cons)
  qed
qed

lemma generate_loop_raises:
  assumes "\<forall>b \<in> set before. attempt_outcome loads str_exn post payload b = Inl (failures b)"
    and "\<forall>b \<in> set before. int b < max_retries self - 1
           \<longrightarrow> sleep (fmul (retry_delay self) (int b + 1)) = None"
    and "attempt_outcome loads str_exn post payload a = Inl failure"
    and "int a < max_retries self - 1"
    and "sleep (fmul (retry_delay self) (int a + 1)) = Some e"
  shows "generate_loop loads str_exn fmul sleep post self payload last_error effects
           (before @ a # later)
         = Inl e"
  using assms(1,2)
proof (induction before arbitrary: last_error effects)
  case Nil
  then show ?case by (simp add: assms(3,4,5))
next
  case (Cons b before)
  from Cons.prems have b: "attempt_outcome loads str_exn post payload b = Inl (failures b)"
    and rest: "\<forall>c \<in> set before. attempt_outcome loads str_exn post payload c = Inl (failures c)"
    and sb: "int b < max_retries self - 1
             \<Longrightarrow> sleep (fmul (retry_delay self) (int b + 1)) = None"
    and srest: "\<forall>c \<in> set before. int c < max_retries self - 1
           \<longrightarrow> sleep (fmul (retry_delay self) (int c + 1)) = None"
    by simp_all
  show ?case
  proof (cases "int b < max_retries self - 1")
    case True
    with sb b show ?thesis
      by (simp add: Cons.IH [OF rest srest])
  next
    case False
    with b show ?thesis
      by (simp add: Cons.IH [OF rest srest])
  qed
qed

lemma upt_split: "a < n \<Longrightarrow> [0 ..< n] = [0 ..< a] @ a # [Suc a ..< n]"
  by (metis upt_conv_Cons upt_add_eq_append le0 le_add_diff_inverse less_imp_le_nat)

lemma last_upt: "0 < n \<Longrightarrow> last [0 ..< n] = n - 1"
proof -
  assume "0 < n"
  then have "[0 ..< n] = [0 ..< n - 1] @ [n - 1]"
    by (metis upt_Suc_append Suc_pred' le0)
  then show ?thesis by (metis last_snoc)
qed

lemma posts_failing_trace: "posts (failing_trace fmul self as) = as"
  by (induction as) (simp_all add: posts_def failing_trace_def map_filter_def)

lemma delays_failing_trace:
  "delays (failing_trace fmul self as)
   = map (\<lambda>a. fmul (retry_delay self) (int a + 1))
       (filter (\<lambda>a. int a < max_retries self - 1) as)"
  by (induction as) (simp_all add: delays_def failing_trace_def map_filter_def)

lemma filter_before_last:
  assumes "0 < max_retries self"
  shows "filter (\<lambda>a. int a < max_retries self - 1) [0 ..< nat (max_retries self)]
         = [0 ..< nat (max_retries self) - 1]"
proof -
  let ?n = "nat (max_retries self)"
  from assms have "0 < ?n" by simp
  then have "[0 ..< ?n] = [0 ..< ?n - 1] @ [?n - 1]"
    by (metis upt_Suc_append Suc_pred' le0)
  moreover have "filter (\<lambda>a. int a < max_retries self - 1) [0 ..< ?n - 1] = [0 ..< ?n - 1]"
    by (rule filter_True) auto
  moreover have "\<not> int (?n - 1) < max_retries self - 1" using assms by simp
  ultimately show ?thesis by (metis filter.simps(2) filter_append append_Nil2)
qed

text \<open>What \<^verbatim>\<open>generate\<close> does, by the outcome of its attempts and of its sleeps.\<close>

lemma generate_all_fail:
  assumes "0 < max_retries self"
    and "\<forall>a < nat (max_retries self).
           attempt_outcome loads str_exn post
             (build_payload self prompt system_prompt temperature max_tokens seed json_schema) a
           = Inl (failures a)"
    and "\<forall>a < nat (max_retries self) - 1. sleep (fmul (retry_delay self) (int a + 1)) = None"
  shows "generate loads str_exn fmul sleep post self prompt system_prompt temperature
           max_tokens seed json_schema
         = Inr (Failed (Some (describe_failure self (failures (nat (max_retries self) - 1))))
                  (model self) (max_retries self),
                failing_trace fmul self [0 ..< nat (max_retries self)])"
proof -
  let ?payload = "build_payload self prompt system_prompt temperature max_tokens seed json_schema"
  let ?n = "nat (max_retries self)"
  have n: "0 < ?n" using assms(1) by simp
  then have ne: "[0 ..< ?n] \<noteq> []" by simp
  have all: "\<forall>a \<in> set [0 ..< ?n].
               attempt_outcome loads str_exn post ?payload a = Inl (failures a)"
    using assms(2) by simp
  have sl: "\<forall>a \<in> set [0 ..< ?n]. int a < max_retries self - 1
              \<longrightarrow> sleep (fmul (retry_delay self) (int a + 1)) = None"
    using assms(3) by auto
  from generate_loop_failing
         [where post = post and payload = ?payload and failures = failures
            and as = "[0 ..< ?n]" and loads = loads and str_exn = str_exn and self = self
            and fmul = fmul and sleep = sleep
            and last_error = None and effects = "[]", OF all sl] ne last_upt [OF n]
  show ?thesis by (simp add: generate_def)
qed

lemma generate_answered:
  assumes "\<forall>b < a. attempt_outcome loads str_exn post
             (build_payload self prompt system_prompt temperature max_tokens seed json_schema) b
           = Inl (failures b)"
    and "\<forall>b < a. sleep (fmul (retry_delay self) (int b + 1)) = None"
    and "int a < max_retries self"
    and "attempt_outcome loads str_exn post
             (build_payload self prompt system_prompt temperature max_tokens seed json_schema) a
         = Inr (raw, p)"
  shows "generate loads str_exn fmul sleep post self prompt system_prompt temperature
           max_tokens seed json_schema
         = Inr (Answered raw p (p \<noteq> JNull) (model self) (int a + 1),
                failing_trace fmul self [0 ..< a] @ [Posted a])"
proof -
  let ?payload = "build_payload self prompt system_prompt temperature max_tokens seed json_schema"
  let ?n = "nat (max_retries self)"
  from assms(3) have a: "a < ?n" by (simp add: zless_nat_eq_int_zless)
  have all: "\<forall>b \<in> set [0 ..< a].
               attempt_outcome loads str_exn post ?payload b = Inl (failures b)"
    using assms(1) by simp
  have sl: "\<forall>b \<in> set [0 ..< a]. int b < max_retries self - 1
              \<longrightarrow> sleep (fmul (retry_delay self) (int b + 1)) = None"
    using assms(2) by simp
  from generate_loop_answer
         [where before = "[0 ..< a]" and post = post and payload = ?payload
            and failures = failures and a = a and raw = raw and loads = loads and p = p
            and str_exn = str_exn and self = self and fmul = fmul and sleep = sleep
            and last_error = None and effects = "[]" and later = "[Suc a ..< ?n]",
          OF all sl assms(4)]
  show ?thesis by (simp add: generate_def upt_split [OF a])
qed

lemma generate_sleep_raises:
  assumes "\<forall>b \<le> a. attempt_outcome loads str_exn post
             (build_payload self prompt system_prompt temperature max_tokens seed json_schema) b
           = Inl (failures b)"
    and "\<forall>b < a. sleep (fmul (retry_delay self) (int b + 1)) = None"
    and "int a < max_retries self - 1"
    and "sleep (fmul (retry_delay self) (int a + 1)) = Some e"
  shows "generate loads str_exn fmul sleep post self prompt system_prompt temperature
           max_tokens seed json_schema
         = Inl e"
proof -
  let ?payload = "build_payload self prompt system_prompt temperature max_tokens seed json_schema"
  let ?n = "nat (max_retries self)"
  from assms(3) have a: "a < ?n" by simp
  have all: "\<forall>b \<in> set [0 ..< a].
               attempt_outcome loads str_exn post ?payload b = Inl (failures b)"
    using assms(1) by simp
  have sl: "\<forall>b \<in> set [0 ..< a]. int b < max_retries self - 1
              \<longrightarrow> sleep (fmul (retry_delay self) (int b + 1)) = None"
    using assms(2) by simp
  have this_one: "attempt_outcome loads str_exn post ?payload a = Inl (failures a)"
    using assms(1) by simp
  from generate_loop_raises
         [where before = "[0 ..< a]" and post = post and payload = ?payload
            and failures = failures and a = a and loads = loads and failure = "failures a"
            and str_exn = str_exn and self = self and fmul = fmul and sleep = sleep
            and last_error = None and effects = "[]" and later = "[Suc a ..< ?n]" and e = e,
          OF all sl this_one assms(3,4)]
  show ?thesis by (simp add: generate_def upt_split [OF a])
qed

lemma deeply_nested_simps [simp]:
  "deeply_nested \<noteq> []" "[] \<noteq> deeply_nested"
  "deeply_nested \<noteq> ''{}''" "''{}'' \<noteq> deeply_nested"
  using deeply_nested_Cons [of "CHR ''{''" "''}''"] deeply_nested_nonempty by auto

lemma deep_parse: "parse_json_response empty_object_loads deeply_nested = Inl RecursionError"
  by (simp add: parse_json_response_def strip_deeply_nested empty_object_loads_def
      json_trim_deeply_nested)

lemma example_sleeps:
  "\<forall>a < nat (max_retries example_client) - 1.
     example_sleep (example_fmul (retry_delay example_client) (int a + 1)) = None"
  by (simp add: example_client_def example_sleep_def example_fmul_def)

lemma example_trace:
  "failing_trace example_fmul example_client [0 ..< 3]
   = [Posted 0, Slept 2, Posted 1, Slept 4, Posted 2]"
  by (simp add: failing_trace_def example_client_def example_fmul_def eval_nat_numeral)

lemma example_client_simps:
  "model example_client = ''mistral''" "max_retries example_client = 3"
  "nat (max_retries example_client) = 3"
  by (simp_all add: example_client_def)

text \<open>
  \<^bold>\<open>Claim C6\<close>, as the specification states it: the last extraction parses the first
  balanced brace-delimited object found in the text, and a text from which nothing is
  extracted is reported as unparsed, with the raw text. The statement fails on the code
  in two ways. The pattern \<^verbatim>\<open>\{[\s\S]*\}\<close> is greedy and matches from the first opening brace
  to the last closing brace: in the text \<^verbatim>\<open>{} {}\<close> the first balanced object is \<^verbatim>\<open>{}\<close>,
  which decodes; the pattern matches the whole text, which does not, and the response is
  reported as unparsed. And only \<open>JSONDecodeError\<close> is passed over: on a response of a
  hundred thousand opening brackets \<^verbatim>\<open>json.loads\<close> raises \<open>RecursionError\<close>, the attempt
  counts as failed and is made again, and what is returned after the last attempt is the
  terminal failure, without the raw text.
\<close>

theorem parse_json_response_extraction_counterexample:
  "first_balanced_object ''{} {}'' = Some ''{}''
   \<and> empty_object_loads ''{}'' = Inr (JObj [])
   \<and> search_braces ''{} {}'' = Some ''{} {}''
   \<and> parse_json_response empty_object_loads ''{} {}'' = Inr JNull
   \<and> generate empty_object_loads exception_name example_fmul example_sleep
         (answering ''{} {}'') example_client ''prompt'' None (2 / 10) 512 None None
       = Inr (Answered ''{} {}'' JNull False ''mistral'' 1, [Posted 0])
   \<and> parse_json_response empty_object_loads deeply_nested = Inl RecursionError
   \<and> generate empty_object_loads exception_name example_fmul example_sleep
         (answering deeply_nested) example_client ''prompt'' None (2 / 10) 512 None None
       = Inr (Failed (Some ''Unexpected error: error'') ''mistral'' 3,
              [Posted 0, Slept 2, Posted 1, Slept 4, Posted 2])"
proof -
  have greedy: "parse_json_response empty_object_loads ''{} {}'' = Inr JNull"
    by (simp add: empty_object_loads_def json_trim_def search_braces_def
        parse_json_response_def search_fenced_def strip_def py_isspace_def deeply_nested_Cons
        Let_def)
  have "attempt_outcome empty_object_loads exception_name (answering ''{} {}'')
          (build_payload example_client ''prompt'' None (2 / 10) 512 None None) 0
        = Inr (''{} {}'', JNull)"
    by (rule attempt_outcome_parsed) (simp_all add: answering_def greedy)
  then have g1: "generate empty_object_loads exception_name example_fmul example_sleep
         (answering ''{} {}'') example_client ''prompt'' None (2 / 10) 512 None None
       = Inr (Answered ''{} {}'' JNull False ''mistral'' 1, [Posted 0])"
    by (simp add: generate_def example_client_def eval_nat_numeral upt_rec [of 0])
  have "\<forall>a < nat (max_retries example_client).
          attempt_outcome empty_object_loads exception_name (answering deeply_nested)
            (build_payload example_client ''prompt'' None (2 / 10) 512 None None) a
          = Inl (CaughtException (exception_name RecursionError))"
    by (simp add: attempt_outcome_def answering_def deep_parse)
  from generate_all_fail
         [where failures = "\<lambda>a. CaughtException (exception_name RecursionError)"
            and sleep = example_sleep and fmul = example_fmul
            and post = "answering deeply_nested" and loads = empty_object_loads
            and str_exn = exception_name and self = example_client,
          OF _ this example_sleeps]
  have g2: "generate empty_object_loads exception_name example_fmul example_sleep
         (answering deeply_nested) example_client ''prompt'' None (2 / 10) 512 None None
       = Inr (Failed (Some ''Unexpected error: error'') ''mistral'' 3,
              [Posted 0, Slept 2, Posted 1, Slept 4, Posted 2])"
    by (simp add: example_client_simps example_trace describe_failure_def exception_name_def)
  have b: "first_balanced_object ''{} {}'' = Some ''{}''" by simp
  have l: "empty_object_loads ''{}'' = Inr (JObj [])"
    by (simp add: empty_object_loads_def json_trim_def)
  have s: "search_braces ''{} {}'' = Some ''{} {}''"
    by (simp add: search_braces_def Let_def)
  from b l s greedy g1 deep_parse g2 show ?thesis by (intro conjI)
qed

text \<open>
  \<^bold>\<open>Claim C6\<close>, amended: for every response text, the extraction tries a fixed order of
  texts: (a) the entire text, (b) the interior of the first fenced block labelled
  \<open>json\<close>, (c) the interior of the first fenced block, (d) the span from the first opening
  brace of the text to its last closing brace; the first of these on which decoding does
  not raise a decode error determines the result: the parsed object or, if decoding
  raises another exception, that exception; and if decoding raises a decode error on all
  of them the result is \<^verbatim>\<open>None\<close>. A fenced block runs from the first occurrence of its
  opening literal to the next \<^verbatim>\<open>```\<close>, and there is one exactly when the text holds the
  opening literal with a \<^verbatim>\<open>```\<close> somewhere after it; there is a span of braces exactly when
  the text holds an opening brace with a closing brace somewhere after it. When the
  backend has answered (after any number of failed attempts) and the extraction returns,
  \<^verbatim>\<open>generate\<close> returns the raw text with the parsed object and \<open>success\<close> exactly when the
  parsed object is not \<^verbatim>\<open>None\<close>: an unparsed answer still carries the raw text and is not
  the dictionary of a transport failure. When the extraction raises, the attempt has
  failed like a request that raised: if that happens in every attempt (and every sleep
  returns), \<^verbatim>\<open>generate\<close> returns the terminal failure, whose error is
  \<^verbatim>\<open>Unexpected error: \<close> and the message of the last exception, without the raw text.
\<close>

theorem parse_json_response_fallback_order:
  "parse_json_response loads raw
     = (if raw = [] then Inr JNull else first_decodable loads (extraction_candidates raw))
   \<and> (\<forall>g. search_fenced opening raw = Some g \<longrightarrow>
          (\<exists>before inside after.
             raw = before @ opening @ inside @ ''```'' @ after
             \<and> find_sub opening raw = Some (length before)
             \<and> find_sub ''```'' (inside @ ''```'' @ after) = Some (length inside)
             \<and> g = strip inside))
   \<and> (search_fenced opening raw = None)
       = (\<not> (\<exists>before inside after. raw = before @ opening @ inside @ ''```'' @ after))
   \<and> (\<forall>s. search_braces raw = Some s \<longrightarrow>
          (\<exists>before after.
             raw = before @ s @ after
             \<and> CHR ''{'' \<notin> set before \<and> CHR ''}'' \<notin> set after
             \<and> hd s = CHR ''{'' \<and> last s = CHR ''}'' \<and> 2 \<le> length s))
   \<and> (search_braces raw = None)
       = (\<not> (\<exists>before inside after. raw = before @ CHR ''{'' # inside @ CHR ''}'' # after))
   \<and> (\<forall>a p. (\<forall>b < a. attempt_outcome loads str_exn post
                          (build_payload self prompt system_prompt temperature max_tokens seed
                             json_schema) b = Inl (failures b))
            \<and> (\<forall>b < a. sleep (fmul (retry_delay self) (int b + 1)) = None)
            \<and> int a < max_retries self
            \<and> post (build_payload self prompt system_prompt temperature max_tokens seed
                       json_schema) a = Inr raw
            \<and> parse_json_response loads raw = Inr p
          \<longrightarrow> generate loads str_exn fmul sleep post self prompt system_prompt temperature
                 max_tokens seed json_schema
                = Inr (Answered raw p (p \<noteq> JNull) (model self) (int a + 1),
                       failing_trace fmul self [0 ..< a] @ [Posted a]))
   \<and> (\<forall>e. 0 < max_retries self
          \<and> (\<forall>a < nat (max_retries self).
                 post (build_payload self prompt system_prompt temperature max_tokens seed
                         json_schema) a = Inr raw)
          \<and> parse_json_response loads raw = Inl e
          \<and> (\<forall>a < nat (max_retries self) - 1.
                 sleep (fmul (retry_delay self) (int a + 1)) = None)
        \<longrightarrow> generate loads str_exn fmul sleep post self prompt system_prompt temperature
               max_tokens seed json_schema
              = Inr (Failed (Some (''Unexpected error: '' @ str_exn e)) (model self)
                       (max_retries self),
                     failing_trace fmul self [0 ..< nat (max_retries self)]))"
proof (intro conjI allI impI)
  show "parse_json_response loads raw
     = (if raw = [] then Inr JNull else first_decodable loads (extraction_candidates raw))"
    by (rule parse_json_response_candidates)
next
  fix g assume "search_fenced opening raw = Some g"
  then show "\<exists>before inside after.
             raw = before @ opening @ inside @ ''```'' @ after
             \<and> find_sub opening raw = Some (length before)
             \<and> find_sub ''```'' (inside @ ''```'' @ after) = Some (length inside)
             \<and> g = strip inside"
    by (rule search_fenced_Some)
next
  show "(search_fenced opening raw = None)
       = (\<not> (\<exists>before inside after. raw = before @ opening @ inside @ ''```'' @ after))"
    by (rule search_fenced_None)
next
  fix s assume "search_braces raw = Some s"
  then show "\<exists>before after.
             raw = before @ s @ after
             \<and> CHR ''{'' \<notin> set before \<and> CHR ''}'' \<notin> set after
             \<and> hd s = CHR ''{'' \<and> last s = CHR ''}'' \<and> 2 \<le> length s"
    by (rule search_braces_Some)
next
  show "(search_braces raw = None)
       = (\<not> (\<exists>before inside after. raw = before @ CHR ''{'' # inside @ CHR ''}'' # after))"
    by (rule search_braces_None)
next
  fix a p
  let ?payload = "build_payload self prompt system_prompt temperature max_tokens seed json_schema"
  assume h: "(\<forall>b < a. attempt_outcome loads str_exn post ?payload b = Inl (failures b))
            \<and> (\<forall>b < a. sleep (fmul (retry_delay self) (int b + 1)) = None)
            \<and> int a < max_retries self
            \<and> post ?payload a = Inr raw
            \<and> parse_json_response loads raw = Inr p"
  then have before: "\<forall>b < a. attempt_outcome loads str_exn post ?payload b = Inl (failures b)"
    and sleeps: "\<forall>b < a. sleep (fmul (retry_delay self) (int b + 1)) = None"
    and a: "int a < max_retries self"
    and answer: "post ?payload a = Inr raw" "parse_json_response loads raw = Inr p"
    by simp_all
  have "attempt_outcome loads str_exn post ?payload a = Inr (raw, p)"
    using answer by (rule attempt_outcome_parsed)
  with before sleeps a
  show "generate loads str_exn fmul sleep post self prompt system_prompt temperature
          max_tokens seed json_schema
        = Inr (Answered raw p (p \<noteq> JNull) (model self) (int a + 1),
               failing_trace fmul self [0 ..< a] @ [Posted a])"
    by (rule generate_answered)
next
  fix e
  let ?payload = "build_payload self prompt system_prompt temperature max_tokens seed json_schema"
  assume h: "0 < max_retries self
          \<and> (\<forall>a < nat (max_retries self). post ?payload a = Inr raw)
          \<and> parse_json_response loads raw = Inl e
          \<and> (\<forall>a < nat (max_retries self) - 1.
                 sleep (fmul (retry_delay self) (int a + 1)) = None)"
  then have pos: "0 < max_retries self"
    and sleeps: "\<forall>a < nat (max_retries self) - 1.
                   sleep (fmul (retry_delay self) (int a + 1)) = None"
    by simp_all
  from h have "\<forall>a < nat (max_retries self).
                 attempt_outcome loads str_exn post ?payload a
                 = Inl (CaughtException (str_exn e))"
    by (simp add: attempt_outcome_raised)
  from generate_all_fail
         [where failures = "\<lambda>a. CaughtException (str_exn e)" and sleep = sleep
            and fmul = fmul and post = post and loads = loads and str_exn = str_exn
            and self = self, OF pos this sleeps]
  show "generate loads str_exn fmul sleep post self prompt system_prompt temperature
          max_tokens seed json_schema
        = Inr (Failed (Some (''Unexpected error: '' @ str_exn e)) (model self)
                 (max_retries self),
               failing_trace fmul self [0 ..< nat (max_retries self)])"
    by (simp add: describe_failure_def)
qed

text \<open>
  A response that wraps its object in a fenced block labelled \<open>json\<close>, sent at the second
  attempt after the first has timed out: the whole text does not decode, the interior of
  the block does, and the answer is a success, at attempt \<open>2\<close>. A response without any
  JSON is an answer too, with its raw text, no parsed object and no success. A response
  on which decoding raises \<open>RecursionError\<close> in each of the three attempts ends in the
  terminal failure.
\<close>

theorem parse_json_response_fallback_order_witness:
  "search_fenced ''```json'' ''Sure: ```json {} ``` done'' = Some ''{}''
   \<and> search_fenced ''```json'' ''Sure: ```json {} '' = None
   \<and> search_braces ''a } b { c'' = None
   \<and> search_braces ''a {b} c } d'' = Some ''{b} c }''
   \<and> parse_json_response empty_object_loads ''Sure: ```json {} ``` done'' = Inr (JObj [])
   \<and> generate empty_object_loads exception_name example_fmul example_sleep
         (recovering ''Sure: ```json {} ``` done'') example_client
         ''prompt'' None (2 / 10) 512 None None
       = Inr (Answered ''Sure: ```json {} ``` done'' (JObj []) True ''mistral'' 2,
              [Posted 0, Slept 2, Posted 1])
   \<and> parse_json_response empty_object_loads ''I cannot decide.'' = Inr JNull
   \<and> generate empty_object_loads exception_name example_fmul example_sleep
         (answering ''I cannot decide.'') example_client ''prompt'' None (2 / 10) 512 None None
       = Inr (Answered ''I cannot decide.'' JNull False ''mistral'' 1, [Posted 0])
   \<and> parse_json_response empty_object_loads deeply_nested = Inl RecursionError
   \<and> generate empty_object_loads exception_name example_fmul example_sleep
         (answering deeply_nested) example_client ''prompt'' None (2 / 10) 512 None None
       = Inr (Failed (Some ''Unexpected error: error'') ''mistral'' 3,
              [Posted 0, Slept 2, Posted 1, Slept 4, Posted 2])"
proof -
  let ?fenced = "''Sure: ```json {} ``` done''" and ?plain = "''I cannot decide.''"
  let ?payload = "build_payload example_client ''prompt'' None (2 / 10) 512 None None"
  have f: "search_fenced ''```json'' ?fenced = Some ''{}''"
    by (simp add: search_fenced_def strip_def py_isspace_def Let_def)
  have f0: "search_fenced ''```json'' ''Sure: ```json {} '' = None"
    by (simp add: search_fenced_def Let_def)
  have b0: "search_braces ''a } b { c'' = None"
    by (simp add: search_braces_def Let_def)
  have b1: "search_braces ''a {b} c } d'' = Some ''{b} c }''"
    by (simp add: search_braces_def Let_def)
  have pf: "parse_json_response empty_object_loads ?fenced = Inr (JObj [])"
    by (simp add: parse_json_response_def empty_object_loads_def json_trim_def f
        strip_def py_isspace_def deeply_nested_Cons)
  have pp: "parse_json_response empty_object_loads ?plain = Inr JNull"
    by (simp add: parse_json_response_def empty_object_loads_def json_trim_def
        search_fenced_def search_braces_def strip_def py_isspace_def deeply_nested_Cons Let_def)
  have first: "\<forall>b < 1. attempt_outcome empty_object_loads exception_name (recovering ?fenced)
                         ?payload b = Inl CaughtTimeout"
    by (simp add: attempt_outcome_def recovering_def)
  have slept: "\<forall>b < 1. example_sleep (example_fmul (retry_delay example_client) (int b + 1))
                        = None"
    by (simp add: example_client_def example_sleep_def example_fmul_def)
  have t1: "failing_trace example_fmul example_client [0 ..< 1] = [Posted 0, Slept 2]"
    by (simp add: failing_trace_def example_client_def example_fmul_def)
  note claim = parse_json_response_fallback_order
    [where post = "recovering ?fenced" and self = example_client and loads = empty_object_loads
       and raw = ?fenced and prompt = "''prompt''" and system_prompt = None
       and temperature = "2 / 10" and max_tokens = 512 and seed = None and json_schema = None
       and str_exn = exception_name and fmul = example_fmul and sleep = example_sleep
       and failures = "\<lambda>b. CaughtTimeout"]
  have gf: "generate empty_object_loads exception_name example_fmul example_sleep
         (recovering ?fenced) example_client ''prompt'' None (2 / 10) 512 None None
       = Inr (Answered ?fenced (JObj []) True ''mistral'' 2, [Posted 0, Slept 2, Posted 1])"
    using claim [THEN conjunct2, THEN conjunct2, THEN conjunct2, THEN conjunct2,
                 THEN conjunct2, THEN conjunct1,
                 THEN spec [where x = 1], THEN spec [where x = "JObj []"]]
          pf first slept t1
    by (simp add: recovering_def example_client_simps)
  note claim' = parse_json_response_fallback_order
    [where post = "answering ?plain" and self = example_client and loads = empty_object_loads
       and raw = ?plain and prompt = "''prompt''" and system_prompt = None
       and temperature = "2 / 10" and max_tokens = 512 and seed = None and json_schema = None
       and str_exn = exception_name and fmul = example_fmul and sleep = example_sleep]
  have gp: "generate empty_object_loads exception_name example_fmul example_sleep
         (answering ?plain) example_client ''prompt'' None (2 / 10) 512 None None
       = Inr (Answered ?plain JNull False ''mistral'' 1, [Posted 0])"
    using claim' [THEN conjunct2, THEN conjunct2, THEN conjunct2, THEN conjunct2,
                  THEN conjunct2, THEN conjunct1,
                  THEN spec [where x = 0], THEN spec [where x = JNull]] pp
    by (simp add: answering_def example_client_simps failing_trace_def)
  note claim'' = parse_json_response_fallback_order
    [where post = "answering deeply_nested" and self = example_client
       and loads = empty_object_loads
       and raw = deeply_nested and prompt = "''prompt''" and system_prompt = None
       and temperature = "2 / 10" and max_tokens = 512 and seed = None and json_schema = None
       and str_exn = exception_name and fmul = example_fmul and sleep = example_sleep]
  have gd: "generate empty_object_loads exception_name example_fmul example_sleep
         (answering deeply_nested) example_client ''prompt'' None (2 / 10) 512 None None
       = Inr (Failed (Some ''Unexpected error: error'') ''mistral'' 3,
              [Posted 0, Slept 2, Posted 1, Slept 4, Posted 2])"
    using claim'' [THEN conjunct2, THEN conjunct2, THEN conjunct2, THEN conjunct2,
                   THEN conjunct2, THEN conjunct2,
                   THEN spec [where x = RecursionError]] deep_parse example_sleeps
    by (simp add: answering_def example_client_simps example_trace exception_name_def)
  from f f0 b0 b1 pf gf pp gp deep_parse gd show ?thesis by (intro conjI)
qed

text \<open>
  \<^bold>\<open>Claim C7\<close>, as stated: when every transport attempt fails, \<^verbatim>\<open>generate\<close> returns the
  terminal failure and never raises. The statement fails on the code: the call of
  \<^verbatim>\<open>time.sleep\<close> between two attempts stands outside the \<^verbatim>\<open>try\<close>, and nothing checks the
  configured delay. The client configured with the delay \<open>-1\<close>, against the backend that
  is down: the first attempt times out, \<^verbatim>\<open>time.sleep(-1.0)\<close> raises \<open>ValueError\<close>, and so
  does \<^verbatim>\<open>generate\<close>, after one attempt of three.
\<close>

theorem generate_negative_delay_counterexample:
  "max_retries hasty_client = 3
   \<and> backend_down (build_payload hasty_client ''prompt'' None (2 / 10) 512 None None) 0
       = Inl CaughtTimeout
   \<and> example_fmul (retry_delay hasty_client) (0 + 1) = - 1
   \<and> example_sleep (- 1) = Some ValueError
   \<and> generate example_loads exception_name example_fmul example_sleep backend_down hasty_client
         ''prompt'' None (2 / 10) 512 None None
       = Inl ValueError"
  by (simp add: generate_def hasty_client_def backend_down_def example_fmul_def
      example_sleep_def attempt_outcome_def eval_nat_numeral upt_rec [of 0])

text \<open>
  \<^bold>\<open>Claim C7\<close>, amended: for every prompt and every client configured with at least one
  attempt, if every transport attempt fails and \<^verbatim>\<open>time.sleep\<close> accepts every delay,
  \<^verbatim>\<open>generate\<close> makes exactly the configured maximum number of attempts, sleeps between
  consecutive attempts for the product of \<open>retry_delay\<close> and the number of the attempt
  just made (\<open>1, 2, \<dots>\<close>), with no sleep after the last, and returns the terminal failure:
  the error is the description of the last error, success is false and there is no
  parsed object. If \<^verbatim>\<open>time.sleep\<close> raises on one of the delays, \<^verbatim>\<open>generate\<close> raises that
  exception.
\<close>

theorem generate_exhausts_retries:
  assumes "0 < max_retries self"
    and "\<forall>a < nat (max_retries self).
           post (build_payload self prompt system_prompt temperature max_tokens seed json_schema) a
           = Inl (failures a)"
  shows "((\<forall>a < nat (max_retries self) - 1.
             sleep (fmul (retry_delay self) (int a + 1)) = None)
          \<longrightarrow> generate loads str_exn fmul sleep post self prompt system_prompt temperature
                 max_tokens seed json_schema
              = Inr (Failed (Some (describe_failure self (failures (nat (max_retries self) - 1))))
                       (model self) (max_retries self),
                     failing_trace fmul self [0 ..< nat (max_retries self)]))
       \<and> posts (failing_trace fmul self [0 ..< nat (max_retries self)])
           = [0 ..< nat (max_retries self)]
       \<and> delays (failing_trace fmul self [0 ..< nat (max_retries self)])
           = map (\<lambda>a. fmul (retry_delay self) (int a + 1)) [0 ..< nat (max_retries self) - 1]
       \<and> (\<forall>a e. int a < max_retries self - 1
               \<and> (\<forall>b < a. sleep (fmul (retry_delay self) (int b + 1)) = None)
               \<and> sleep (fmul (retry_delay self) (int a + 1)) = Some e
             \<longrightarrow> generate loads str_exn fmul sleep post self prompt system_prompt temperature
                    max_tokens seed json_schema
                 = Inl e)"
proof (intro conjI allI impI)
  let ?payload = "build_payload self prompt system_prompt temperature max_tokens seed json_schema"
  let ?n = "nat (max_retries self)"
  have outcome: "\<forall>a < ?n. attempt_outcome loads str_exn post ?payload a = Inl (failures a)"
    using assms(2) by (simp add: attempt_outcome_failed)
  show "generate loads str_exn fmul sleep post self prompt system_prompt temperature
          max_tokens seed json_schema
        = Inr (Failed (Some (describe_failure self (failures (?n - 1))))
                 (model self) (max_retries self),
               failing_trace fmul self [0 ..< ?n])"
    if "\<forall>a < ?n - 1. sleep (fmul (retry_delay self) (int a + 1)) = None"
    using assms(1) outcome that by (rule generate_all_fail)
  show "posts (failing_trace fmul self [0 ..< ?n]) = [0 ..< ?n]"
    by (rule posts_failing_trace)
  show "delays (failing_trace fmul self [0 ..< ?n])
        = map (\<lambda>a. fmul (retry_delay self) (int a + 1)) [0 ..< ?n - 1]"
    by (simp add: delays_failing_trace filter_before_last [OF assms(1)])
  show "generate loads str_exn fmul sleep post self prompt system_prompt temperature
          max_tokens seed json_schema
        = Inl e"
    if h: "int a < max_retries self - 1
           \<and> (\<forall>b < a. sleep (fmul (retry_delay self) (int b + 1)) = None)
           \<and> sleep (fmul (retry_delay self) (int a + 1)) = Some e" for a e
  proof -
    from h have a: "int a < max_retries self - 1"
      and before: "\<forall>b < a. sleep (fmul (retry_delay self) (int b + 1)) = None"
      and this_one: "sleep (fmul (retry_delay self) (int a + 1)) = Some e"
      by simp_all
    from a have "\<forall>b \<le> a. b < ?n" by auto
    with outcome
    have "\<forall>b \<le> a. attempt_outcome loads str_exn post ?payload b = Inl (failures b)"
      by simp
    from this before a this_one show ?thesis by (rule generate_sleep_raises)
  qed
qed

text \<open>
  The example client (three attempts, delay \<open>2\<close>) against the backend that is down: three
  requests, sleeps of \<open>2\<close> and \<open>4\<close> seconds between them, and the failure carries the
  description of the third error. The client with the delay \<open>-1\<close> raises at its first
  sleep.
\<close>

theorem generate_exhausts_retries_witness:
  "0 < max_retries example_client
   \<and> generate example_loads exception_name example_fmul example_sleep backend_down
        example_client ''prompt'' None (2 / 10) 512 None None
       = Inr (Failed (Some ''Connection error: refused'') ''mistral'' 3,
              [Posted 0, Slept 2, Posted 1, Slept 4, Posted 2])
   \<and> posts [Posted 0, Slept (2 :: rat), Posted 1, Slept 4, Posted 2] = [0, 1, 2]
   \<and> delays [Posted 0, Slept (2 :: rat), Posted 1, Slept 4, Posted 2] = [2, 4]
   \<and> generate example_loads exception_name example_fmul example_sleep backend_down
        hasty_client ''prompt'' None (2 / 10) 512 None None
       = Inl ValueError"
proof -
  have pos: "0 < max_retries example_client" by (simp add: example_client_def)
  have down: "\<forall>a < nat (max_retries example_client).
      backend_down (build_payload example_client ''prompt'' None (2 / 10) 512 None None) a
      = Inl (if a < 2 then CaughtTimeout else CaughtConnectionError ''refused'')"
    by (simp add: backend_down_def)
  note claim = generate_exhausts_retries
         [where self = example_client and post = backend_down and prompt = "''prompt''"
            and system_prompt = None and temperature = "2 / 10" and max_tokens = 512
            and seed = None and json_schema = None and loads = example_loads
            and str_exn = exception_name and fmul = example_fmul and sleep = example_sleep
            and failures = "\<lambda>a. if a < 2 then CaughtTimeout else CaughtConnectionError ''refused''",
          OF pos down]
  from claim [THEN conjunct1] example_sleeps
  have run: "generate example_loads exception_name example_fmul example_sleep backend_down
        example_client ''prompt'' None (2 / 10) 512 None None
       = Inr (Failed (Some ''Connection error: refused'') ''mistral'' 3,
              [Posted 0, Slept 2, Posted 1, Slept 4, Posted 2])"
    by (simp add: example_client_simps example_trace describe_failure_def)
  from claim [THEN conjunct2, THEN conjunct1, unfolded example_client_simps(3) example_trace]
  have ps: "posts [Posted 0, Slept (2 :: rat), Posted 1, Slept 4, Posted 2] = [0, 1, 2]"
    by (simp add: eval_nat_numeral upt_rec [of 0])
  from claim [THEN conjunct2, THEN conjunct2, THEN conjunct1,
              unfolded example_client_simps(3) example_trace]
  have ds: "delays [Posted 0, Slept (2 :: rat), Posted 1, Slept 4, Posted 2] = [2, 4]"
    by (simp add: example_fmul_def example_client_def eval_nat_numeral upt_rec [of 0])
  have pos': "0 < max_retries hasty_client" by (simp add: hasty_client_def)
  have down': "\<forall>a < nat (max_retries hasty_client).
      backend_down (build_payload hasty_client ''prompt'' None (2 / 10) 512 None None) a
      = Inl (if a < 2 then CaughtTimeout else CaughtConnectionError ''refused'')"
    by (simp add: backend_down_def)
  note hasty = generate_exhausts_retries
         [where self = hasty_client and post = backend_down and prompt = "''prompt''"
            and system_prompt = None and temperature = "2 / 10" and max_tokens = 512
            and seed = None and json_schema = None and loads = example_loads
            and str_exn = exception_name and fmul = example_fmul and sleep = example_sleep
            and failures = "\<lambda>a. if a < 2 then CaughtTimeout else CaughtConnectionError ''refused''",
          OF pos' down']
  from hasty [THEN conjunct2, THEN conjunct2, THEN conjunct2,
              THEN spec [where x = 0], THEN spec [where x = ValueError]]
  have raised: "generate example_loads exception_name example_fmul example_sleep backend_down
        hasty_client ''prompt'' None (2 / 10) 512 None None
       = Inl ValueError"
    by (simp add: hasty_client_def example_fmul_def example_sleep_def)
  from pos run ps ds raised show ?thesis by (intro conjI)
qed

end
